theory Spec2Isabelle
  imports Main "HOL-Library.Sublist"
begin

section \<open>The certbot manager service (certbot\_manager.py)\<close>

text \<open>
  The service is one Python file: \<^verbatim>\<open>run_certbot\<close> provisions one domain with the
  external tool, \<^verbatim>\<open>main_service\<close> is the endless cycle loop, \<^verbatim>\<open>shutdown_handler\<close>
  is installed for SIGTERM and SIGINT. Everything the program does is an effect, so the
  embedding is a trace semantics: each function returns the list of events it produced
  (lines written, calls made to the operating system) together with the way it ended
  (normal return, or the exception that left it). The answers of the operating system
  (name resolution, file system, external tool, sleeping, signals) are inputs of the
  model, one record per cycle.

  Strings are lists of \<^typ>\<open>char\<close>, read as the code points below 256.
\<close>

subsection \<open>The pieces of Python's \<^verbatim>\<open>str\<close> that the program uses\<close>

text \<open>\<^verbatim>\<open>str.lower()\<close> on code points below 256: A-Z, and the capital letters
  U+00C0..U+00DE other than the multiplication sign U+00D7, move up by 32.\<close>

definition py_lower_char :: "char \<Rightarrow> char" where
  "py_lower_char c =
     (let n = (of_char c :: nat)
      in if (65 \<le> n \<and> n \<le> 90) \<or> (192 \<le> n \<and> n \<le> 222 \<and> n \<noteq> 215)
         then char_of (n + 32) else c)"

definition py_lower :: "string \<Rightarrow> string" where
  "py_lower s = map py_lower_char s"

text \<open>\<^verbatim>\<open>needle in hay\<close> on strings: \<^verbatim>\<open>needle\<close> occurs as a contiguous piece.\<close>

fun py_in :: "string \<Rightarrow> string \<Rightarrow> bool" where
  "py_in needle [] = (needle = [])"
| "py_in needle (c # cs) = (prefix needle (c # cs) \<or> py_in needle cs)"

text \<open>\<^verbatim>\<open>str.isspace\<close> for one code point below 256, and \<^verbatim>\<open>str.strip()\<close>.\<close>

definition py_isspace :: "char \<Rightarrow> bool" where
  "py_isspace c =
     (let n = (of_char c :: nat)
      in (9 \<le> n \<and> n \<le> 13) \<or> (28 \<le> n \<and> n \<le> 32) \<or> n = 133 \<or> n = 160)"

definition py_strip :: "string \<Rightarrow> string" where
  "py_strip s = rev (dropWhile py_isspace (rev (dropWhile py_isspace s)))"

text \<open>\<^verbatim>\<open>s.split(sep)\<close> for a one-character separator: never an empty list.\<close>

fun py_split :: "char \<Rightarrow> string \<Rightarrow> string list" where
  "py_split sep [] = [[]]"
| "py_split sep (c # cs) =
     (if c = sep then [] # py_split sep cs
      else (case py_split sep cs of
              [] \<Rightarrow> [[c]]
            | l # ls \<Rightarrow> (c # l) # ls))"

text \<open>\<^verbatim>\<open>sep.join(xs)\<close>.\<close>

fun py_join :: "string \<Rightarrow> string list \<Rightarrow> string" where
  "py_join sep [] = []"
| "py_join sep [x] = x"
| "py_join sep (x # y # ys) = x @ sep @ py_join sep (y # ys)"

text \<open>A value read from a CSV row is a string or \<^verbatim>\<open>None\<close> (a short row is filled up
  with \<^verbatim>\<open>None\<close>); an f-string renders \<^verbatim>\<open>None\<close> as the text \<^verbatim>\<open>None\<close>.\<close>

datatype pyval = Str string | NoneVal

fun py_format :: "pyval \<Rightarrow> string" where
  "py_format (Str s) = s"
| "py_format NoneVal = ''None''"

subsection \<open>The pieces of \<^verbatim>\<open>pathlib\<close> that the program uses\<close>

text \<open>
  A POSIX path is a root (empty, one slash, or two slashes when the text starts with
  exactly two) and the components that are neither empty nor a single dot.
  \<^verbatim>\<open>p / key\<close> joins as \<^verbatim>\<open>posixpath.join\<close> does, so an absolute right operand replaces
  the left one, and parses the result again.
\<close>

record ppath =
  root :: string
  parts :: "string list"

definition splitroot :: "string \<Rightarrow> string \<times> string" where
  "splitroot p =
     (if take 1 p \<noteq> ''/'' then ([], p)
      else if take 1 (drop 1 p) \<noteq> ''/'' \<or> take 1 (drop 2 p) = ''/'' then (''/'', drop 1 p)
      else (''//'', drop 2 p))"

definition Path :: "string \<Rightarrow> ppath" where
  "Path s =
     (case splitroot s of
        (r, rel) \<Rightarrow> \<lparr> root = r, parts = filter (\<lambda>x. x \<noteq> [] \<and> x \<noteq> ''.'') (py_split CHR ''/'' rel) \<rparr>)"

definition path_str :: "ppath \<Rightarrow> string" where
  "path_str p =
     (if root p = [] \<and> parts p = [] then ''.'' else root p @ py_join ''/'' (parts p))"

definition path_name :: "ppath \<Rightarrow> string" where
  "path_name p = (if parts p = [] then [] else last (parts p))"

definition posix_join :: "string \<Rightarrow> string \<Rightarrow> string" where
  "posix_join a b =
     (if take 1 b = ''/'' then b
      else if a = [] \<or> last a = CHR ''/'' then a @ b
      else a @ ''/'' @ b)"

definition truediv :: "ppath \<Rightarrow> string \<Rightarrow> ppath" where
  "truediv p key = Path (posix_join (path_str p) key)"

subsection \<open>Exceptions, signals, events\<close>

text \<open>
  The class hierarchy as far as the handlers of the program can tell classes apart:
  \<^verbatim>\<open>SystemExit\<close> derives from \<^verbatim>\<open>BaseException\<close> only, everything else that can be
  raised here is an \<^verbatim>\<open>Exception\<close>. \<^verbatim>\<open>CalledProcessError\<close> carries the return code, the
  command, the captured standard output and the captured standard error.
\<close>

datatype exc =
    OSError string
  | KeyError string
  | AttributeError string
  | TypeError string
  | ValueError string
  | UnicodeDecodeError
  | CsvError string
  | CalledProcessError int "string list" string string
  | OtherException string

datatype exn = Exception exc | SystemExit int

datatype signum = SIGINT | SIGTERM

text \<open>One constructor per \<^verbatim>\<open>print\<close> or \<^verbatim>\<open>log\<close> statement of the source; the decoration
  of the text (icons, rules, timestamp) is left out, the interpolated values are kept.\<close>

datatype message =
    Banner
  | CycleStart int
  | CsvMissing string
  | Reading string
  | CycleComplete int
  | RuntimeException exc
  | Provisioning string
  | Separator
  | MissingCredentials string string
  | StatusValid
  | StatusIssued
  | FailedToProcess string
  | ErrorLine string
  | Blank
  | Shutdown

datatype syscall =
    Gethostbyname string
  | Exists string
  | Open string
  | Spawn "string list"
  | Sleep int

datatype event =
    Printed message
  | Logged bool message
  | Called syscall
  | Delivered signum

text \<open>What a call into the operating system can answer: a value, an exception, or a
  signal that arrives while the call is in progress.\<close>

datatype 'a reply = Returns 'a | Raises exc | Signal signum

text \<open>How a piece of the program ends: \<open>None\<close> for a normal return, or the exception
  that leaves it. A piece with a result uses a sum instead.\<close>

type_synonym outcome = "event list \<times> exn option"

text \<open>Sequencing: the second piece runs only when the first returns normally.\<close>

definition emit :: "event list \<Rightarrow> outcome" where
  "emit evs = (evs, None)"

definition seq :: "outcome \<Rightarrow> outcome \<Rightarrow> outcome" where
  "seq a b =
     (case a of
        (evs, Some x) \<Rightarrow> (evs, Some x)
      | (evs, None) \<Rightarrow> (case b of (evs', r) \<Rightarrow> (evs @ evs', r)))"

definition and_then :: "event list \<times> (exn + 'a) \<Rightarrow> ('a \<Rightarrow> outcome) \<Rightarrow> outcome" where
  "and_then a f =
     (case a of
        (evs, Inl x) \<Rightarrow> (evs, Some x)
      | (evs, Inr v) \<Rightarrow> (case f v of (evs', r) \<Rightarrow> (evs @ evs', r)))"

subsection \<open>Configuration\<close>

definition SECRETS_DIR :: ppath where
  "SECRETS_DIR = Path ''/etc/letsencrypt/secrets''"

definition RETRY_DELAY :: int where
  "RETRY_DELAY = 60"

text \<open>\<^verbatim>\<open>log(message, is_error)\<close> writes one line, to standard error when \<^verbatim>\<open>is_error\<close>.\<close>

definition log :: "message \<Rightarrow> bool \<Rightarrow> event list" where
  "log m is_error = [Logged is_error m]"

subsection \<open>Signal handling\<close>

text \<open>\<^verbatim>\<open>shutdown_handler(signum, frame)\<close>: a blank line, the goodbye line, \<^verbatim>\<open>sys.exit(0)\<close>.\<close>

definition shutdown_handler :: "signum \<Rightarrow> event list \<times> exn" where
  "shutdown_handler signum = ([Printed Blank] @ log Shutdown False, SystemExit 0)"

text \<open>A call into the operating system: the call is recorded; when a signal (both
  SIGTERM and SIGINT are bound to the handler by the main block) arrives during the call,
  the handler runs and its \<^verbatim>\<open>SystemExit\<close> leaves the call.\<close>

definition call :: "syscall \<Rightarrow> 'a reply \<Rightarrow> event list \<times> (exn + 'a)" where
  "call c r =
     (case r of
        Returns v \<Rightarrow> ([Called c], Inr v)
      | Raises e \<Rightarrow> ([Called c], Inl (Exception e))
      | Signal s \<Rightarrow> (case shutdown_handler s of
                      (evs, x) \<Rightarrow> ([Called c, Delivered s] @ evs, Inl x)))"

text \<open>\<^verbatim>\<open>time.sleep(secs)\<close> refuses a negative length before it sleeps.\<close>

definition time_sleep :: "int \<Rightarrow> unit reply \<Rightarrow> outcome" where
  "time_sleep secs r =
     (if secs < 0 then ([], Some (Exception (ValueError ''sleep length must be non-negative'')))
      else (case call (Sleep secs) r of
              (evs, Inl x) \<Rightarrow> (evs, Some x)
            | (evs, Inr _) \<Rightarrow> (evs, None)))"

subsection \<open>The external tool\<close>

record completed =
  returncode :: int
  stdout :: string
  stderr :: string

text \<open>\<^verbatim>\<open>subprocess.run(cmd, capture_output=True, text=True, check=True)\<close>: an argument
  that is not a string is a \<^verbatim>\<open>TypeError\<close> before anything is started; with
  \<^verbatim>\<open>check=True\<close> a nonzero return code becomes a \<^verbatim>\<open>CalledProcessError\<close>.\<close>

fun str_args :: "pyval list \<Rightarrow> string list option" where
  "str_args [] = Some []"
| "str_args (Str s # vs) = map_option ((#) s) (str_args vs)"
| "str_args (NoneVal # vs) = None"

definition subprocess_run :: "pyval list \<Rightarrow> (string list \<Rightarrow> completed reply) \<Rightarrow> event list \<times> (exn + completed)" where
  "subprocess_run cmd spawn =
     (case str_args cmd of
        None \<Rightarrow> ([], Inl (Exception (TypeError ''expected str, bytes or os.PathLike object, not NoneType'')))
      | Some args \<Rightarrow>
          (case call (Spawn args) (spawn args) of
             (evs, Inl x) \<Rightarrow> (evs, Inl x)
           | (evs, Inr p) \<Rightarrow>
               (if returncode p \<noteq> 0
                then (evs, Inl (Exception (CalledProcessError (returncode p) args (stdout p) (stderr p))))
                else (evs, Inr p))))"

subsection \<open>\<^verbatim>\<open>run_certbot\<close>\<close>

definition plugin_of :: "string \<Rightarrow> string" where
  "plugin_of provider_key =
     (if py_in ''cloudflare'' (py_lower provider_key) then ''cloudflare'' else ''rfc2136'')"

definition creds_path_of :: "string \<Rightarrow> ppath" where
  "creds_path_of provider_key = truediv SECRETS_DIR (provider_key @ ''.ini'')"

definition certbot_cmd :: "string \<Rightarrow> pyval \<Rightarrow> string \<Rightarrow> pyval \<Rightarrow> pyval list" where
  "certbot_cmd plugin email creds fqdn =
     [Str ''certbot'', Str ''certonly'', Str ''--non-interactive'', Str ''--agree-tos'',
      Str ''--email'', email, Str (''--dns-'' @ plugin),
      Str (''--dns-'' @ plugin @ ''-credentials''), Str creds,
      Str ''--keep-until-expiring'', Str ''-d'', fqdn]"

definition hook_args :: "ppath option \<Rightarrow> pyval \<Rightarrow> pyval list" where
  "hook_args hook_script fqdn =
     (case hook_script of
        None \<Rightarrow> []
      | Some h \<Rightarrow> [Str ''--deploy-hook'', Str (path_str h @ '' '' @ py_format fqdn)])"

text \<open>The \<^verbatim>\<open>try\<close> statement of \<^verbatim>\<open>run_certbot\<close>: the status line after a run that
  returned, the error report for a \<^verbatim>\<open>CalledProcessError\<close>; any other exception leaves
  the statement.\<close>

definition try_certbot :: "pyval list \<Rightarrow> (string list \<Rightarrow> completed reply) \<Rightarrow> pyval \<Rightarrow> outcome" where
  "try_certbot cmd spawn fqdn =
     (case subprocess_run cmd spawn of
        (evs, Inr result) \<Rightarrow>
          (evs @ [Printed (if py_in ''Certificate not yet due'' (stdout result)
                           then StatusValid else StatusIssued)],
           None)
      | (evs, Inl (Exception (CalledProcessError rc args out err))) \<Rightarrow>
          (evs @ log (FailedToProcess (py_format fqdn)) True
               @ map (\<lambda>line. Printed (ErrorLine line)) (py_split CHR 0x0A (py_strip err)),
           None)
      | (evs, Inl x) \<Rightarrow> (evs, Some x))"

text \<open>
  The arguments are the three values of the row and the hook path checked at startup.
  \<open>exists\<close> answers \<^verbatim>\<open>creds_path.exists()\<close>, \<open>spawn\<close> is the external tool.
  The early \<^verbatim>\<open>return\<close> for missing credentials and an exception other than
  \<^verbatim>\<open>CalledProcessError\<close> both skip the closing separator line.
\<close>

definition run_certbot ::
  "(string \<Rightarrow> bool reply) \<Rightarrow> (string list \<Rightarrow> completed reply) \<Rightarrow>
   pyval \<Rightarrow> pyval \<Rightarrow> pyval \<Rightarrow> ppath option \<Rightarrow> outcome" where
  "run_certbot exists spawn fqdn provider_key email hook_script =
     seq (emit [Printed (Provisioning (py_format fqdn)), Printed Separator])
       (case provider_key of
          NoneVal \<Rightarrow> ([], Some (Exception (AttributeError ''NoneType object has no attribute lower'')))
        | Str key \<Rightarrow>
            and_then (call (Exists (path_str (creds_path_of key)))
                           (exists (path_str (creds_path_of key)))) (\<lambda>present.
              if \<not> present
              then emit (log (MissingCredentials (py_format fqdn) (path_str (creds_path_of key))) True)
              else seq (try_certbot
                          (certbot_cmd (plugin_of key) email (path_str (creds_path_of key)) fqdn
                             @ hook_args hook_script fqdn)
                          spawn fqdn)
                       (emit [Printed Separator])))"

subsection \<open>The pieces of the \<^verbatim>\<open>csv\<close> module that the program uses\<close>

text \<open>
  \<^verbatim>\<open>csv.DictReader(f, skipinitialspace=True)\<close> is the reader of the default dialect
  (delimiter comma, quote character the double quote, doubled quotes, no escape
  character, not strict) with \<^verbatim>\<open>skipinitialspace\<close> on. The reader is a state machine
  fed one character at a time, and an end-of-line mark (\<open>None\<close> below) after each line.
  The states that need an escape character cannot be reached and are left out.
\<close>

datatype parser_state =
  START_RECORD | START_FIELD | IN_FIELD | IN_QUOTED_FIELD | QUOTE_IN_QUOTED_FIELD | EAT_CRNL

record reader =
  r_state :: parser_state
  r_field :: string
  r_fields :: "string list"

definition field_limit :: int where
  "field_limit = 131072"

definition parse_add_char :: "reader \<Rightarrow> char \<Rightarrow> exc + reader" where
  "parse_add_char self c =
     (if field_limit \<le> int (length (r_field self))
      then Inl (CsvError ''field larger than field limit (131072)'')
      else Inr (self\<lparr>r_field := r_field self @ [c]\<rparr>))"

definition parse_save_field :: "reader \<Rightarrow> reader" where
  "parse_save_field self = self\<lparr>r_fields := r_fields self @ [r_field self], r_field := []\<rparr>"

definition is_newline :: "char \<Rightarrow> bool" where
  "is_newline c = (c = CHR 0x0A \<or> c = CHR 0x0D)"

text \<open>The branch \<^verbatim>\<open>START_FIELD\<close>, which \<^verbatim>\<open>START_RECORD\<close> falls into for a character that
  does not end the line. The only characters skipped at the start of a field are spaces.\<close>

definition start_field :: "reader \<Rightarrow> char option \<Rightarrow> exc + reader" where
  "start_field self c =
     (case c of
        None \<Rightarrow> Inr ((parse_save_field self)\<lparr>r_state := START_RECORD\<rparr>)
      | Some ch \<Rightarrow>
          if is_newline ch then Inr ((parse_save_field self)\<lparr>r_state := EAT_CRNL\<rparr>)
          else if ch = CHR 0x22 then Inr (self\<lparr>r_state := IN_QUOTED_FIELD\<rparr>)
          else if ch = CHR '' '' then Inr self
          else if ch = CHR '','' then Inr (parse_save_field self)
          else map_sum id (\<lambda>s. s\<lparr>r_state := IN_FIELD\<rparr>) (parse_add_char self ch))"

definition parse_process_char :: "reader \<Rightarrow> char option \<Rightarrow> exc + reader" where
  "parse_process_char self c =
     (case r_state self of
        START_RECORD \<Rightarrow>
          (case c of
             None \<Rightarrow> Inr self
           | Some ch \<Rightarrow>
               if is_newline ch then Inr (self\<lparr>r_state := EAT_CRNL\<rparr>)
               else start_field (self\<lparr>r_state := START_FIELD\<rparr>) c)
      | START_FIELD \<Rightarrow> start_field self c
      | IN_FIELD \<Rightarrow>
          (case c of
             None \<Rightarrow> Inr ((parse_save_field self)\<lparr>r_state := START_RECORD\<rparr>)
           | Some ch \<Rightarrow>
               if is_newline ch then Inr ((parse_save_field self)\<lparr>r_state := EAT_CRNL\<rparr>)
               else if ch = CHR '','' then Inr ((parse_save_field self)\<lparr>r_state := START_FIELD\<rparr>)
               else parse_add_char self ch)
      | IN_QUOTED_FIELD \<Rightarrow>
          (case c of
             None \<Rightarrow> Inr self
           | Some ch \<Rightarrow>
               if ch = CHR 0x22 then Inr (self\<lparr>r_state := QUOTE_IN_QUOTED_FIELD\<rparr>)
               else parse_add_char self ch)
      | QUOTE_IN_QUOTED_FIELD \<Rightarrow>
          (case c of
             None \<Rightarrow> Inr ((parse_save_field self)\<lparr>r_state := START_RECORD\<rparr>)
           | Some ch \<Rightarrow>
               if ch = CHR 0x22
               then map_sum id (\<lambda>s. s\<lparr>r_state := IN_QUOTED_FIELD\<rparr>) (parse_add_char self ch)
               else if ch = CHR '','' then Inr ((parse_save_field self)\<lparr>r_state := START_FIELD\<rparr>)
               else if is_newline ch then Inr ((parse_save_field self)\<lparr>r_state := EAT_CRNL\<rparr>)
               else map_sum id (\<lambda>s. s\<lparr>r_state := IN_FIELD\<rparr>) (parse_add_char self ch))
      | EAT_CRNL \<Rightarrow>
          (case c of
             None \<Rightarrow> Inr (self\<lparr>r_state := START_RECORD\<rparr>)
           | Some ch \<Rightarrow>
               if is_newline ch then Inr self
               else Inl (CsvError ''new-line character seen in unquoted field'')))"

fun feed :: "reader \<Rightarrow> char option list \<Rightarrow> exc + reader" where
  "feed self [] = Inr self"
| "feed self (c # cs) =
     (case parse_process_char self c of
        Inl e \<Rightarrow> Inl e
      | Inr self' \<Rightarrow> feed self' cs)"

definition parse_reset :: reader where
  "parse_reset = \<lparr>r_state = START_RECORD, r_field = [], r_fields = []\<rparr>"

text \<open>
  The file object hands out its lines one by one; reading a line can fail, so a line is
  a string or the exception raised in its place. \<open>reader_rows\<close> is the list of records
  the reader yields before it stops, and the exception it stops with, if any. Parsing
  has no effect of its own, so reading the records ahead of the loop that consumes them
  changes nothing. A record goes on into the next line while a quoted field is open.
\<close>

fun reader_rows :: "reader \<Rightarrow> (exc + string) list \<Rightarrow> string list list \<times> exc option" where
  "reader_rows self [] =
     (if r_field self \<noteq> [] \<or> r_state self = IN_QUOTED_FIELD
      then ([r_fields (parse_save_field self)], None)
      else ([], None))"
| "reader_rows self (Inl e # rest) = ([], Some e)"
| "reader_rows self (Inr line # rest) =
     (case feed self (map Some line @ [None]) of
        Inl e \<Rightarrow> ([], Some e)
      | Inr self' \<Rightarrow>
          if r_state self' = START_RECORD
          then (case reader_rows parse_reset rest of (rows, err) \<Rightarrow> (r_fields self' # rows, err))
          else reader_rows self' rest)"

text \<open>\<^verbatim>\<open>DictReader\<close>: the first record is the header, whatever it is; empty records
  after it are skipped; a short record is filled up with \<^verbatim>\<open>None\<close>, later keys
  overwrite earlier equal ones. (The surplus values of a long record go under the key
  \<^verbatim>\<open>None\<close>, which no lookup of the program uses.)\<close>

type_synonym row = "string \<rightharpoonup> pyval"

definition make_dict :: "string list \<Rightarrow> string list \<Rightarrow> row" where
  "make_dict fieldnames record =
     fold (\<lambda>k d. d(k \<mapsto> NoneVal)) (drop (length record) fieldnames)
       (fold (\<lambda>(k, v) d. d(k \<mapsto> Str v)) (zip fieldnames record) Map.empty)"

definition DictReader :: "(exc + string) list \<Rightarrow> row list \<times> exc option" where
  "DictReader lines =
     (case reader_rows parse_reset lines of
        ([], err) \<Rightarrow> ([], err)
      | (fieldnames # records, err) \<Rightarrow>
          (map (make_dict fieldnames) (filter (\<lambda>r. r \<noteq> []) records), err))"

text \<open>\<^verbatim>\<open>row[key]\<close>.\<close>

definition getitem :: "row \<Rightarrow> string \<Rightarrow> exc + pyval" where
  "getitem d key = (case d key of None \<Rightarrow> Inl (KeyError key) | Some v \<Rightarrow> Inr v)"

subsection \<open>\<^verbatim>\<open>main_service\<close>\<close>

text \<open>The parsed command line, and what the file system says about the hook path when
  the service starts.\<close>

record args =
  csv :: string
  hook :: "string option"
  frequency :: int

record startup =
  hook_exists :: "string \<Rightarrow> bool"
  hook_is_file :: "string \<Rightarrow> bool"
  hook_resolve :: "string \<Rightarrow> string"

text \<open>
  What the operating system answers during one pass of the loop. The answers for the
  credential file and the external tool may depend on the position of the row as well as
  on the argument. \<^verbatim>\<open>time.sleep(RETRY_DELAY)\<close> has a valid constant argument, so it
  either elapses (\<open>None\<close>) or is cut short by a signal.
\<close>

record world =
  gethostbyname :: "string \<Rightarrow> string reply"
  csv_exists :: "string \<Rightarrow> bool reply"
  csv_open :: "string \<Rightarrow> (exc + string) list reply"
  creds_exists :: "nat \<Rightarrow> string \<Rightarrow> bool reply"
  certbot :: "nat \<Rightarrow> string list \<Rightarrow> completed reply"
  retry_sleep :: "signum option"
  cycle_sleep :: "unit reply"

definition sleep_reply :: "signum option \<Rightarrow> unit reply" where
  "sleep_reply s = (case s of None \<Rightarrow> Returns () | Some sig \<Rightarrow> Signal sig)"

definition hook_script_of :: "args \<Rightarrow> startup \<Rightarrow> ppath option" where
  "hook_script_of a fs =
     (case hook a of
        None \<Rightarrow> None
      | Some h \<Rightarrow>
          if h = [] then None
          else (let p = Path h
                in if hook_exists fs (path_str p) \<and> hook_is_file fs (path_str p)
                   then Some (Path (hook_resolve fs (path_str p)))
                   else None))"

text \<open>The call \<^verbatim>\<open>run_certbot(row["fqdn"], row["dns_provider"], row["email"], hook_script)\<close>
  for the row at position \<open>k\<close>: the lookups are evaluated from left to right.\<close>

definition run_row :: "world \<Rightarrow> ppath option \<Rightarrow> nat \<Rightarrow> row \<Rightarrow> outcome" where
  "run_row w hook_script k r =
     and_then ([], map_sum Exception id (getitem r ''fqdn'')) (\<lambda>fqdn.
     and_then ([], map_sum Exception id (getitem r ''dns_provider'')) (\<lambda>provider_key.
     and_then ([], map_sum Exception id (getitem r ''email'')) (\<lambda>email.
       run_certbot (creds_exists w k) (certbot w k) fqdn provider_key email hook_script)))"

fun run_rows :: "world \<Rightarrow> ppath option \<Rightarrow> nat \<Rightarrow> row list \<Rightarrow> outcome" where
  "run_rows w hook_script k [] = emit []"
| "run_rows w hook_script k (r # rs) =
     seq (run_row w hook_script k r) (run_rows w hook_script (Suc k) rs)"

text \<open>The \<^verbatim>\<open>for row in reader\<close> loop: the rows read, then the exception that stopped
  the reader, if one did.\<close>

definition for_rows :: "world \<Rightarrow> ppath option \<Rightarrow> row list \<times> exc option \<Rightarrow> outcome" where
  "for_rows w hook_script rd =
     seq (run_rows w hook_script 0 (fst rd))
         (case snd rd of None \<Rightarrow> emit [] | Some e \<Rightarrow> ([], Some (Exception e)))"

definition acme_host :: string where
  "acme_host = ''acme-v02.api.letsencrypt.org''"

text \<open>The body of the \<^verbatim>\<open>try\<close> block of one pass of the loop.\<close>

definition cycle :: "args \<Rightarrow> ppath option \<Rightarrow> world \<Rightarrow> outcome" where
  "cycle a hook_script w =
     (let csv_file = Path (csv a)
      in seq (emit ([Printed Banner] @ log (CycleStart (frequency a)) False))
        (and_then (call (Gethostbyname acme_host) (gethostbyname w acme_host)) (\<lambda>_.
         and_then (call (Exists (path_str csv_file)) (csv_exists w (path_str csv_file))) (\<lambda>present.
           if \<not> present
           then seq (emit (log (CsvMissing (path_str csv_file)) True))
                    (time_sleep RETRY_DELAY (sleep_reply (retry_sleep w)))
           else seq (emit (log (Reading (path_name csv_file)) False))
                (and_then (call (Open (path_str csv_file)) (csv_open w (path_str csv_file))) (\<lambda>lines.
                 seq (for_rows w hook_script (DictReader lines))
                (seq (emit ([Printed Banner] @ log (CycleComplete (frequency a)) False))
                     (time_sleep (frequency a * 60) (cycle_sleep w)))))))))"

text \<open>
  The loop. It has no exit of its own, so the model runs it over the worlds of finitely
  many passes and reports \<open>Running\<close> when they are used up. \<^verbatim>\<open>except Exception\<close> takes
  the exceptions of class \<^verbatim>\<open>Exception\<close>; a \<^verbatim>\<open>SystemExit\<close> leaves the function and ends
  the process with its code, and an exception that left the handler itself would end the
  process with code 1.
\<close>

datatype status = Running | Exited int

definition uncaught :: "exn \<Rightarrow> status" where
  "uncaught x = (case x of SystemExit code \<Rightarrow> Exited code | Exception e \<Rightarrow> Exited 1)"

fun service_loop :: "args \<Rightarrow> ppath option \<Rightarrow> world list \<Rightarrow> event list \<times> status" where
  "service_loop a hook_script [] = ([], Running)"
| "service_loop a hook_script (w # ws) =
     (case cycle a hook_script w of
        (evs, None) \<Rightarrow>
          (case service_loop a hook_script ws of (evs', st) \<Rightarrow> (evs @ evs', st))
      | (evs, Some (Exception e)) \<Rightarrow>
          (case time_sleep RETRY_DELAY (sleep_reply (retry_sleep w)) of
             (evs1, None) \<Rightarrow>
               (case service_loop a hook_script ws of
                  (evs', st) \<Rightarrow> (evs @ log (RuntimeException e) True @ evs1 @ evs', st))
           | (evs1, Some x) \<Rightarrow> (evs @ log (RuntimeException e) True @ evs1, uncaught x))
      | (evs, Some (SystemExit code)) \<Rightarrow> (evs, uncaught (SystemExit code)))"

definition main_service :: "args \<Rightarrow> startup \<Rightarrow> world list \<Rightarrow> event list \<times> status" where
  "main_service a fs ws = service_loop a (hook_script_of a fs) ws"

subsection \<open>Notions used in the statements\<close>

text \<open>A trace is quiet when no signal was delivered in it; it is shut down when it
  ends with one delivery and the two lines of the handler, and is quiet before.\<close>

definition quiet :: "event list \<Rightarrow> bool" where
  "quiet evs = (\<forall>s. Delivered s \<notin> set evs)"






text \<open>Concrete inputs for the examples: a command line, a startup file system without
  and with the hook, a CSV file of two jobs, and a world in which everything answers.\<close>

definition demo_args :: args where
  "demo_args = \<lparr>csv = ''/data/domains.csv'', hook = Some ''/opt/hook.sh'', frequency = 60\<rparr>"

definition demo_no_hook :: startup where
  "demo_no_hook = \<lparr>hook_exists = (\<lambda>_. False), hook_is_file = (\<lambda>_. False), hook_resolve = id\<rparr>"

definition demo_hook :: startup where
  "demo_hook = \<lparr>hook_exists = (\<lambda>_. True), hook_is_file = (\<lambda>_. True), hook_resolve = id\<rparr>"

definition demo_lines :: "(exc + string) list" where
  "demo_lines =
     [Inr (''fqdn,dns_provider,email'' @ [CHR 0x0A]),
      Inr (''a.example.com, cloudflare, ops@example.com'' @ [CHR 0x0A]),
      Inr (''b.example.com, internal, ops@example.com'' @ [CHR 0x0A])]"

definition demo_done :: completed where
  "demo_done = \<lparr>returncode = 0, stdout = ''Certificate not yet due for renewal'', stderr = []\<rparr>"

definition demo_world :: world where
  "demo_world =
     \<lparr>gethostbyname = (\<lambda>_. Returns ''172.65.32.248''),
      csv_exists = (\<lambda>_. Returns True),
      csv_open = (\<lambda>_. Returns demo_lines),
      creds_exists = (\<lambda>_ _. Returns True),
      certbot = (\<lambda>_ _. Returns demo_done),
      retry_sleep = None,
      cycle_sleep = Returns ()\<rparr>"





definition demo_valid :: "string list \<Rightarrow> completed reply" where
  "demo_valid argv = Returns demo_done"

text \<open>A pass in which the name resolution fails, and a pass in which the input file is
  missing and SIGTERM arrives during the retry delay.\<close>

definition demo_dns_down :: world where
  "demo_dns_down = demo_world\<lparr>gethostbyname := (\<lambda>_. Raises (OSError ''Temporary failure in name resolution''))\<rparr>"






text \<open>The reading of the specification's credential path: the secrets directory, a
  slash, the provider key, \<^verbatim>\<open>.ini\<close>.\<close>

definition spec_credential_path :: "string \<Rightarrow> string \<Rightarrow> string" where
  "spec_credential_path secrets_dir provider_key = secrets_dir @ ''/'' @ provider_key @ ''.ini''"

text \<open>A file name is normal when, cut at its slashes, it has no empty component and no
  component that is a single dot: it does not start with a slash, has no doubled slash
  and no \<^verbatim>\<open>./\<close> in it. These are the names that \<^verbatim>\<open>pathlib\<close> leaves as they are.\<close>

definition normal_name :: "string \<Rightarrow> bool" where
  "normal_name name = list_all (\<lambda>x. x \<noteq> [] \<and> x \<noteq> ''.'') (py_split CHR ''/'' name)"

text \<open>A credential check that finds nothing, and a row of the input file.\<close>

definition demo_absent :: "string \<Rightarrow> bool reply" where
  "demo_absent path = Returns False"

definition demo_row :: row where
  "demo_row = make_dict [''fqdn'', ''dns_provider'', ''email'']
                        [''a.example.com'', ''cloudflare'', ''ops@example.com'']"

definition demo_unprovisioned :: world where
  "demo_unprovisioned = demo_world\<lparr>creds_exists := (\<lambda>_. demo_absent)\<rparr>"

text \<open>Every command line started in a trace satisfies \<open>P\<close>.\<close>

definition spawns_ok :: "(string list \<Rightarrow> bool) \<Rightarrow> event list \<Rightarrow> bool" where
  "spawns_ok P evs = (\<forall>argv. Called (Spawn argv) \<in> set evs \<longrightarrow> P argv)"

text \<open>The command lines that \<^verbatim>\<open>run_certbot\<close> builds for a given hook.\<close>

definition certbot_argv :: "ppath option \<Rightarrow> string list \<Rightarrow> bool" where
  "certbot_argv hook_script argv =
     (\<exists>key email fqdn.
        map Str argv =
          certbot_cmd (plugin_of key) (Str email) (path_str (creds_path_of key)) (Str fqdn)
            @ hook_args hook_script (Str fqdn))"




fun attempts :: "event list \<Rightarrow> string list" where
  "attempts [] = []"
| "attempts (Printed (Provisioning fqdn) # evs) = fqdn # attempts evs"
| "attempts (ev # evs) = attempts evs"





text \<open>The job descriptor of a row is what the loop reads from it: the values under the
  three keys (\<open>None\<close> for a key the row does not have).\<close>

definition descriptor :: "row \<Rightarrow> pyval option \<times> pyval option \<times> pyval option" where
  "descriptor r = (r ''fqdn'', r ''dns_provider'', r ''email'')"

text \<open>\<open>reader_state self lines\<close> is the parser state in which the reader takes up the line
  that follows \<open>lines\<close>, by the same steps as \<open>reader_rows\<close>; it is \<open>None\<close> when the reader
  has stopped with an exception before.\<close>

fun reader_state :: "reader \<Rightarrow> (exc + string) list \<Rightarrow> reader option" where
  "reader_state self [] = Some self"
| "reader_state self (Inl e # rest) = None"
| "reader_state self (Inr line # rest) =
     (case feed self (map Some line @ [None]) of
        Inl e \<Rightarrow> None
      | Inr self' \<Rightarrow>
          if r_state self' = START_RECORD
          then reader_state parse_reset rest
          else reader_state self' rest)"

text \<open>A position in a line, between the characters \<open>pre\<close> read so far and the characters
  \<open>post\<close> still to come, is at the start of a field when the parser is in the state
  \<^verbatim>\<open>START_FIELD\<close> there, or in the state \<^verbatim>\<open>START_RECORD\<close> with a character to come that does
  not end the line. Where the reader has stopped before, every position counts.\<close>

definition field_start :: "reader \<Rightarrow> string \<Rightarrow> bool" where
  "field_start s post =
     (r_state s = START_FIELD
      \<or> (r_state s = START_RECORD \<and> (case post of [] \<Rightarrow> False | c # cs \<Rightarrow> \<not> is_newline c)))"

definition at_field_start :: "(exc + string) list \<Rightarrow> string \<Rightarrow> string \<Rightarrow> bool" where
  "at_field_start before pre post =
     (case reader_state parse_reset before of
        None \<Rightarrow> True
      | Some s0 \<Rightarrow>
          (case feed s0 (map Some pre) of
             Inl e \<Rightarrow> True
           | Inr s \<Rightarrow> field_start s post))"

text \<open>The lines \<open>before\<close> end a record when the reader takes up the next line in the state
  \<^verbatim>\<open>START_RECORD\<close>, that is, when no quoted field is left open.\<close>

definition starts_record :: "(exc + string) list \<Rightarrow> bool" where
  "starts_record before =
     (case reader_state parse_reset before of
        None \<Rightarrow> True
      | Some s \<Rightarrow> r_state s = START_RECORD)"

text \<open>A plain field has no comma, no quote and no line end in it. \<open>pad n f\<close> puts \<open>n\<close>
  spaces in front of a field, and \<open>as_line\<close> ends a line.\<close>

definition plain :: "string \<Rightarrow> bool" where
  "plain f = list_all (\<lambda>c. c \<noteq> CHR '','' \<and> c \<noteq> CHR 0x22 \<and> \<not> is_newline c) f"

definition pad :: "nat \<Rightarrow> string \<Rightarrow> string" where
  "pad n f = replicate n CHR '' '' @ f"

definition as_line :: "string \<Rightarrow> exc + string" where
  "as_line l = Inr (l @ [CHR 0x0A])"

text \<open>Input files for the examples: the header; a row with a quoted provider key; a row
  with a space after the domain name, with a tab in front of the provider key, with a
  space inside the quotes of the domain name; a line of two spaces.\<close>

definition demo_header :: "exc + string" where
  "demo_header = as_line ''fqdn,dns_provider,email''"

definition demo_quoted :: string where
  "demo_quoted = [CHR 0x22] @ ''cloudflare'' @ [CHR 0x22] @ '',ops@example.com'' @ [CHR 0x0A]"

definition demo_trimmed :: "(exc + string) list" where
  "demo_trimmed = [demo_header, as_line ''a.example.com,cloudflare,ops@example.com'']"

definition demo_trailing :: "(exc + string) list" where
  "demo_trailing = [demo_header, as_line ''a.example.com ,cloudflare,ops@example.com'']"

definition demo_tab :: "(exc + string) list" where
  "demo_tab =
     [demo_header, as_line (''a.example.com,'' @ [CHR 0x09] @ ''cloudflare,ops@example.com'')]"

definition demo_inside_quotes :: "(exc + string) list" where
  "demo_inside_quotes =
     [demo_header,
      as_line ([CHR 0x22] @ '' a.example.com'' @ [CHR 0x22] @ '',cloudflare,ops@example.com'')]"

definition demo_spaces_only :: "(exc + string) list" where
  "demo_spaces_only = [demo_header, as_line ''  '']"

definition demo_empty_line :: "(exc + string) list" where
  "demo_empty_line = [demo_header, as_line '''']"

section \<open>Properties\<close>

subsection \<open>Basic facts\<close>

lemma call_simps:
  "call c (Returns v) = ([Called c], Inr v)"
  "call c (Raises e) = ([Called c], Inl (Exception e))"
  "call c (Signal s) =
     ([Called c, Delivered s, Printed Blank, Logged False Shutdown], Inl (SystemExit 0))"
  by (simp_all add: call_def shutdown_handler_def log_def)

lemma seq_simps:
  "seq (evs, None) b = (evs @ fst b, snd b)"
  "seq (evs, Some x) b = (evs, Some x)"
  "seq (emit evs) b = (evs @ fst b, snd b)"
  by (simp_all add: seq_def emit_def split: prod.splits)

lemma and_then_simps:
  "and_then (evs, Inl x) f = (evs, Some x)"
  "and_then (evs, Inr v) f = (evs @ fst (f v), snd (f v))"
  by (simp_all add: and_then_def split: prod.splits)


lemma retry_sleep_cases:
  "time_sleep RETRY_DELAY (sleep_reply s) =
     (case s of
        None \<Rightarrow> ([Called (Sleep 60)], None)
      | Some sig \<Rightarrow>
          ([Called (Sleep 60), Delivered sig, Printed Blank, Logged False Shutdown],
           Some (SystemExit 0)))"
  by (simp add: time_sleep_def RETRY_DELAY_def sleep_reply_def call_simps split: option.splits)

text \<open>\<^verbatim>\<open>needle in hay\<close> is the usual notion of a substring.\<close>

lemma py_in_iff: "py_in needle hay \<longleftrightarrow> (\<exists>pre post. hay = pre @ needle @ post)"
proof (induction hay)
  case Nil
  then show ?case by auto
next
  case (Cons c cs)
  show ?case
  proof
    assume "py_in needle (c # cs)"
    then consider "prefix needle (c # cs)" | "py_in needle cs" by auto
    then show "\<exists>pre post. c # cs = pre @ needle @ post"
    proof cases
      case 1
      then obtain post where "c # cs = needle @ post" by (auto simp: prefix_def)
      then have "c # cs = [] @ needle @ post" by simp
      then show ?thesis by blast
    next
      case 2
      with Cons.IH obtain pre post where "cs = pre @ needle @ post" by blast
      then have "c # cs = (c # pre) @ needle @ post" by simp
      then show ?thesis by blast
    qed
  next
    assume "\<exists>pre post. c # cs = pre @ needle @ post"
    then obtain pre post where eq: "c # cs = pre @ needle @ post" by blast
    show "py_in needle (c # cs)"
    proof (cases pre)
      case Nil
      with eq have "prefix needle (c # cs)" by (simp add: prefix_def)
      then show ?thesis by simp
    next
      case (Cons p ps)
      with eq have "cs = ps @ needle @ post" by simp
      with Cons.IH have "py_in needle cs" by blast
      then show ?thesis by simp
    qed
  qed
qed

subsection \<open>Signals and exceptions through the whole program\<close>

lemma quiet_append [simp]: "quiet (xs @ ys) \<longleftrightarrow> quiet xs \<and> quiet ys"
  by (auto simp: quiet_def)

lemma quiet_simps [simp]:
  "quiet []"
  "quiet (Printed m # evs) = quiet evs"
  "quiet (Logged b m # evs) = quiet evs"
  "quiet (Called c # evs) = quiet evs"
  "\<not> quiet (Delivered s # evs)"
  by (auto simp: quiet_def)

lemma quiet_map_Printed [simp]: "quiet (map (\<lambda>x. Printed (f x)) xs)"
  by (auto simp: quiet_def)


















subsection \<open>Classification of one run of the tool\<close>


lemma demo_cloudflare_path:
  "path_str (creds_path_of ''cloudflare'') = ''/etc/letsencrypt/secrets/cloudflare.ini''"
  by code_simp








subsection \<open>No processing error ends the process\<close>



subsection \<open>Termination by signal\<close>








subsection \<open>The start of a pass: name resolution, then the input file\<close>

lemma cycle_start:
  "\<exists>rest. cycle a hook_script w
           = ([Printed Banner, Logged False (CycleStart (frequency a)),
               Called (Gethostbyname ''acme-v02.api.letsencrypt.org'')] @ rest,
              snd (cycle a hook_script w))"
proof (cases "gethostbyname w acme_host")
  case (Returns ip)
  then show ?thesis
    by (simp add: cycle_def Let_def seq_simps and_then_simps call_simps log_def acme_host_def
             split: prod.splits)
next
  case (Raises e)
  then show ?thesis
    by (simp add: cycle_def Let_def seq_simps and_then_simps call_simps log_def acme_host_def)
next
  case (Signal s)
  then show ?thesis
    by (simp add: cycle_def Let_def seq_simps and_then_simps call_simps log_def acme_host_def)
qed

lemma cycle_dns_raises:
  assumes "gethostbyname w ''acme-v02.api.letsencrypt.org'' = Raises e"
  shows "cycle a hook_script w
           = ([Printed Banner, Logged False (CycleStart (frequency a)),
               Called (Gethostbyname ''acme-v02.api.letsencrypt.org'')],
              Some (Exception e))"
  using assms
  by (simp add: cycle_def Let_def seq_simps and_then_simps call_simps log_def acme_host_def)



lemma service_loop_retries:
  "cycle a hook_script w = (evs, Some (Exception e)) \<Longrightarrow> retry_sleep w = None \<Longrightarrow>
   service_loop a hook_script (w # ws)
     = (evs @ [Logged True (RuntimeException e), Called (Sleep 60)]
            @ fst (service_loop a hook_script ws),
        snd (service_loop a hook_script ws))"
  by (simp add: retry_sleep_cases log_def split: prod.splits)

text \<open>
  Claim C10. Every pass starts with the two opening lines and then resolves the fixed
  host name \<^verbatim>\<open>acme-v02.api.letsencrypt.org\<close>, before any other call (in particular
  before the check that the input file exists). When the resolution raises, the pass ends
  there, whatever the rest of the world looks like: no file is looked at, no job runs, the
  exception is logged, the loop sleeps for the retry delay and (no signal arriving
  meanwhile) goes on with the next pass.
\<close>

theorem dns_check_gates_cycle:
  "(\<exists>rest. fst (cycle a (hook_script_of a fs) w)
            = [Printed Banner, Logged False (CycleStart (frequency a)),
               Called (Gethostbyname ''acme-v02.api.letsencrypt.org'')] @ rest)
   \<and> (gethostbyname w ''acme-v02.api.letsencrypt.org'' = Raises e \<longrightarrow>
        cycle a (hook_script_of a fs) w
          = ([Printed Banner, Logged False (CycleStart (frequency a)),
              Called (Gethostbyname ''acme-v02.api.letsencrypt.org'')],
             Some (Exception e))
        \<and> (retry_sleep w = None \<longrightarrow>
             main_service a fs (w # ws)
               = ([Printed Banner, Logged False (CycleStart (frequency a)),
                   Called (Gethostbyname ''acme-v02.api.letsencrypt.org''),
                   Logged True (RuntimeException e), Called (Sleep RETRY_DELAY)]
                  @ fst (main_service a fs ws),
                  snd (main_service a fs ws))))"
proof (intro conjI impI)
  from cycle_start [of a "hook_script_of a fs" w] obtain rest where
    "cycle a (hook_script_of a fs) w
       = ([Printed Banner, Logged False (CycleStart (frequency a)),
           Called (Gethostbyname ''acme-v02.api.letsencrypt.org'')] @ rest,
          snd (cycle a (hook_script_of a fs) w))"
    by blast
  then have "fst (cycle a (hook_script_of a fs) w)
               = [Printed Banner, Logged False (CycleStart (frequency a)),
                  Called (Gethostbyname ''acme-v02.api.letsencrypt.org'')] @ rest"
    by (metis fst_conv)
  then show "\<exists>rest. fst (cycle a (hook_script_of a fs) w)
            = [Printed Banner, Logged False (CycleStart (frequency a)),
               Called (Gethostbyname ''acme-v02.api.letsencrypt.org'')] @ rest"
    by blast
next
  assume "gethostbyname w ''acme-v02.api.letsencrypt.org'' = Raises e"
  then show c: "cycle a (hook_script_of a fs) w
          = ([Printed Banner, Logged False (CycleStart (frequency a)),
              Called (Gethostbyname ''acme-v02.api.letsencrypt.org'')],
             Some (Exception e))"
    by (rule cycle_dns_raises)
  assume "retry_sleep w = None"
  with c show "main_service a fs (w # ws)
               = ([Printed Banner, Logged False (CycleStart (frequency a)),
                   Called (Gethostbyname ''acme-v02.api.letsencrypt.org''),
                   Logged True (RuntimeException e), Called (Sleep RETRY_DELAY)]
                  @ fst (main_service a fs ws),
                  snd (main_service a fs ws))"
    unfolding main_service_def
    using service_loop_retries [of a "hook_script_of a fs" w _ e ws]
    by (simp add: RETRY_DELAY_def)
qed

lemma demo_dns_down_facts:
  "gethostbyname demo_dns_down ''acme-v02.api.letsencrypt.org''
     = Raises (OSError ''Temporary failure in name resolution'')"
  "csv_exists demo_dns_down ''/data/domains.csv'' = Returns True"
  "creds_exists demo_dns_down k p = Returns True"
  "retry_sleep demo_dns_down = None"
  by (simp_all add: demo_dns_down_def demo_world_def)

theorem dns_check_gates_cycle_witness:
  "gethostbyname demo_dns_down ''acme-v02.api.letsencrypt.org''
     = Raises (OSError ''Temporary failure in name resolution'')
   \<and> csv_exists demo_dns_down ''/data/domains.csv'' = Returns True
   \<and> retry_sleep demo_dns_down = None
   \<and> cycle demo_args (hook_script_of demo_args demo_hook) demo_dns_down
       = ([Printed Banner, Logged False (CycleStart (frequency demo_args)),
           Called (Gethostbyname ''acme-v02.api.letsencrypt.org'')],
          Some (Exception (OSError ''Temporary failure in name resolution'')))
   \<and> main_service demo_args demo_hook [demo_dns_down, demo_world]
       = ([Printed Banner, Logged False (CycleStart (frequency demo_args)),
           Called (Gethostbyname ''acme-v02.api.letsencrypt.org''),
           Logged True (RuntimeException (OSError ''Temporary failure in name resolution'')),
           Called (Sleep RETRY_DELAY)]
          @ fst (main_service demo_args demo_hook [demo_world]),
          snd (main_service demo_args demo_hook [demo_world]))"
  using dns_check_gates_cycle
          [where a = demo_args and fs = demo_hook and w = demo_dns_down
             and e = "OSError ''Temporary failure in name resolution''" and ws = "[demo_world]"]
        demo_dns_down_facts
  by simp

subsection \<open>A missing input file\<close>






subsection \<open>Credentials\<close>

lemma py_split_no_sep: "sep \<notin> set xs \<Longrightarrow> py_split sep xs = [xs]"
  by (induction xs) auto

lemma py_split_at_sep: "sep \<notin> set xs \<Longrightarrow> py_split sep (xs @ sep # ys) = xs # py_split sep ys"
  by (induction xs) auto

lemma secrets_dir_str: "path_str SECRETS_DIR = ''/etc/letsencrypt/secrets''"
  by code_simp

lemma py_join_Cons: "ys \<noteq> [] \<Longrightarrow> py_join sep (x # ys) = x @ sep @ py_join sep ys"
  by (cases ys) simp_all

lemma py_split_not_Nil: "py_split sep s \<noteq> []"
  by (induction s) (auto split: list.splits)

lemma py_join_split: "py_join [sep] (py_split sep s) = s"
proof (induction s)
  case Nil
  show ?case by simp
next
  case (Cons c cs)
  obtain l ls where ls: "py_split sep cs = l # ls"
    using py_split_not_Nil [of sep cs] by (cases "py_split sep cs") simp_all
  show ?case
  proof (cases "c = sep")
    case True
    with Cons.IH ls show ?thesis by simp
  next
    case False
    have "py_join [sep] ((c # l) # ls) = c # py_join [sep] (l # ls)"
      by (cases ls) simp_all
    with False Cons.IH ls show ?thesis by simp
  qed
qed

text \<open>The length of a joined list, counted with one separator per component.\<close>

lemma length_py_join:
  "xs \<noteq> [] \<Longrightarrow> Suc (length (py_join [sep] xs)) = (\<Sum>x\<leftarrow>xs. Suc (length x))"
  by (induction xs rule: list_nonempty_induct) (simp_all add: py_join_Cons)

lemma sum_filter_le:
  "(\<Sum>x\<leftarrow>filter P xs. Suc (length x)) \<le> (\<Sum>x\<leftarrow>xs. Suc (length x))"
  by (induction xs) simp_all

lemma sum_filter_less:
  "\<exists>x\<in>set xs. \<not> P x \<Longrightarrow> (\<Sum>x\<leftarrow>filter P xs. Suc (length x)) < (\<Sum>x\<leftarrow>xs. Suc (length x))"
proof (induction xs)
  case Nil
  then show ?case by simp
next
  case (Cons x xs)
  show ?case
  proof (cases "P x")
    case True
    with Cons show ?thesis by simp
  next
    case False
    have "(\<Sum>x\<leftarrow>filter P xs. Suc (length x)) \<le> (\<Sum>x\<leftarrow>xs. Suc (length x))"
      by (rule sum_filter_le)
    with False show ?thesis by simp
  qed
qed

lemma length_join_filter_le:
  "length (py_join [sep] (filter P (py_split sep s))) \<le> length s"
proof (cases "filter P (py_split sep s) = []")
  case True
  then show ?thesis by simp
next
  case False
  have "Suc (length (py_join [sep] (filter P (py_split sep s))))
          = (\<Sum>x\<leftarrow>filter P (py_split sep s). Suc (length x))"
    using False by (rule length_py_join)
  also have "\<dots> \<le> (\<Sum>x\<leftarrow>py_split sep s. Suc (length x))"
    by (rule sum_filter_le)
  also have "\<dots> = Suc (length (py_join [sep] (py_split sep s)))"
    using py_split_not_Nil by (rule length_py_join [symmetric])
  finally show ?thesis by (simp add: py_join_split)
qed

lemma length_join_filter_less:
  assumes "filter P (py_split sep s) \<noteq> []" and "\<exists>x\<in>set (py_split sep s). \<not> P x"
  shows "length (py_join [sep] (filter P (py_split sep s))) < length s"
proof -
  have "Suc (length (py_join [sep] (filter P (py_split sep s))))
          = (\<Sum>x\<leftarrow>filter P (py_split sep s). Suc (length x))"
    using assms(1) by (rule length_py_join)
  also have "\<dots> < (\<Sum>x\<leftarrow>py_split sep s. Suc (length x))"
    using assms(2) by (rule sum_filter_less)
  also have "\<dots> = Suc (length (py_join [sep] (py_split sep s)))"
    using py_split_not_Nil by (rule length_py_join [symmetric])
  finally show ?thesis by (simp add: py_join_split)
qed

text \<open>A name that ends in \<^verbatim>\<open>.ini\<close> has a component that is kept.\<close>

lemma dull_components:
  "\<forall>x\<in>set xs. x = [] \<or> x = ''.'' \<Longrightarrow> set (py_join ''/'' xs) \<subseteq> {CHR ''/'', CHR ''.''}"
proof (induction xs)
  case Nil
  show ?case by simp
next
  case (Cons x xs)
  from Cons.prems have x: "x = [] \<or> x = ''.''" and rest: "\<forall>x\<in>set xs. x = [] \<or> x = ''.''"
    by simp_all
  note ih = Cons.IH [OF rest]
  show ?case
  proof (cases "xs = []")
    case True
    with x show ?thesis by auto
  next
    case False
    then have "py_join ''/'' (x # xs) = x @ ''/'' @ py_join ''/'' xs"
      by (rule py_join_Cons)
    with ih x show ?thesis by auto
  qed
qed

lemma ini_component_kept:
  "filter (\<lambda>x. x \<noteq> [] \<and> x \<noteq> ''.'') (py_split CHR ''/'' (key @ ''.ini'')) \<noteq> []"
proof
  assume "filter (\<lambda>x. x \<noteq> [] \<and> x \<noteq> ''.'') (py_split CHR ''/'' (key @ ''.ini'')) = []"
  then have "\<forall>x\<in>set (py_split CHR ''/'' (key @ ''.ini'')). x = [] \<or> x = ''.''"
    by (auto simp: filter_empty_conv)
  then have "set (py_join ''/'' (py_split CHR ''/'' (key @ ''.ini''))) \<subseteq> {CHR ''/'', CHR ''.''}"
    by (rule dull_components)
  then have "set (key @ ''.ini'') \<subseteq> {CHR ''/'', CHR ''.''}"
    using py_join_split [of "CHR ''/''" "key @ ''.ini''"] by simp
  then show False by simp
qed


text \<open>The credential path in general: an absolute name replaces the secrets directory;
  any other name is put under it, with its empty and dot components dropped.\<close>

lemma creds_path_relative:
  assumes "take 1 (key @ ''.ini'') \<noteq> ''/''"
  shows "path_str (creds_path_of key)
           = ''/etc/letsencrypt/secrets/''
             @ py_join ''/'' (filter (\<lambda>x. x \<noteq> [] \<and> x \<noteq> ''.'')
                                       (py_split CHR ''/'' (key @ ''.ini'')))"
proof -
  let ?K = "key @ ''.ini''"
  let ?F = "filter (\<lambda>x. x \<noteq> [] \<and> x \<noteq> ''.'') (py_split CHR ''/'' ?K)"
  have j: "posix_join ''/etc/letsencrypt/secrets'' ?K = ''/etc/letsencrypt/secrets/'' @ ?K"
    using assms by (simp add: posix_join_def)
  have r: "splitroot (''/etc/letsencrypt/secrets/'' @ ?K)
             = (''/'', ''etc/letsencrypt/secrets/'' @ ?K)"
    by (simp add: splitroot_def)
  have s: "py_split CHR ''/'' (''etc/letsencrypt/secrets/'' @ ?K)
             = [''etc'', ''letsencrypt'', ''secrets''] @ py_split CHR ''/'' ?K"
  proof -
    have "py_split CHR ''/'' (''etc'' @ CHR ''/'' # (''letsencrypt/secrets/'' @ ?K))
            = ''etc'' # py_split CHR ''/'' (''letsencrypt/secrets/'' @ ?K)"
      by (rule py_split_at_sep) simp
    moreover have "py_split CHR ''/'' (''letsencrypt'' @ CHR ''/'' # (''secrets/'' @ ?K))
            = ''letsencrypt'' # py_split CHR ''/'' (''secrets/'' @ ?K)"
      by (rule py_split_at_sep) simp
    moreover have "py_split CHR ''/'' (''secrets'' @ CHR ''/'' # ?K)
            = ''secrets'' # py_split CHR ''/'' ?K"
      by (rule py_split_at_sep) simp
    ultimately show ?thesis by simp
  qed
  have p: "Path (''/etc/letsencrypt/secrets/'' @ ?K)
             = \<lparr>root = ''/'', parts = [''etc'', ''letsencrypt'', ''secrets''] @ ?F\<rparr>"
    unfolding Path_def r s by simp
  have ne: "?F \<noteq> []" by (rule ini_component_kept)
  have "py_join ''/'' ([''etc'', ''letsencrypt'', ''secrets''] @ ?F)
          = ''etc/letsencrypt/secrets/'' @ py_join ''/'' ?F"
    using ne by (simp add: py_join_Cons)
  then show ?thesis
    unfolding creds_path_of_def truediv_def secrets_dir_str j p
    by (simp add: path_str_def)
qed

lemma creds_path_absolute:
  assumes "take 1 (key @ ''.ini'') = ''/''"
  shows "length (path_str (creds_path_of key)) \<le> length (key @ ''.ini'')"
proof -
  let ?K = "key @ ''.ini''"
  have j: "posix_join ''/etc/letsencrypt/secrets'' ?K = ?K"
    using assms by (simp add: posix_join_def)
  obtain r rel where sr: "splitroot ?K = (r, rel)" by (cases "splitroot ?K")
  from assms sr have r: "r \<noteq> []" and len: "length r + length rel = length ?K"
    by (auto simp: splitroot_def split: if_splits)
  have "path_str (Path ?K)
          = r @ py_join ''/'' (filter (\<lambda>x. x \<noteq> [] \<and> x \<noteq> ''.'') (py_split CHR ''/'' rel))"
    using r by (simp add: Path_def sr path_str_def)
  moreover have "length (py_join ''/'' (filter (\<lambda>x. x \<noteq> [] \<and> x \<noteq> ''.'') (py_split CHR ''/'' rel)))
                   \<le> length rel"
    using length_join_filter_le [of "CHR ''/''" _ rel] by simp
  ultimately have "length (path_str (Path ?K)) \<le> length ?K"
    using len by simp
  then show ?thesis
    unfolding creds_path_of_def truediv_def secrets_dir_str j .
qed

lemma creds_path_iff:
  "path_str (creds_path_of key) = spec_credential_path (path_str SECRETS_DIR) key
     \<longleftrightarrow> normal_name (key @ ''.ini'')"
proof (cases "take 1 (key @ ''.ini'') = ''/''")
  case True
  then obtain cs where k: "key @ ''.ini'' = CHR ''/'' # cs"
    by (cases "key @ ''.ini''") simp_all
  have "[] \<in> set (py_split CHR ''/'' (key @ ''.ini''))"
    unfolding k by simp
  then have n: "\<not> normal_name (key @ ''.ini'')"
    by (auto simp: normal_name_def list_all_iff)
  have "length (path_str (creds_path_of key)) \<le> length (key @ ''.ini'')"
    using True by (rule creds_path_absolute)
  moreover have "length (spec_credential_path (path_str SECRETS_DIR) key)
                   > length (key @ ''.ini'')"
    by (simp add: spec_credential_path_def secrets_dir_str)
  ultimately have "path_str (creds_path_of key) \<noteq> spec_credential_path (path_str SECRETS_DIR) key"
    by auto
  with n show ?thesis by simp
next
  case False
  let ?K = "key @ ''.ini''"
  let ?F = "filter (\<lambda>x. x \<noteq> [] \<and> x \<noteq> ''.'') (py_split CHR ''/'' ?K)"
  have p: "path_str (creds_path_of key) = ''/etc/letsencrypt/secrets/'' @ py_join ''/'' ?F"
    using False by (rule creds_path_relative)
  have f: "spec_credential_path (path_str SECRETS_DIR) key = ''/etc/letsencrypt/secrets/'' @ ?K"
    by (simp add: spec_credential_path_def secrets_dir_str)
  show ?thesis
  proof (cases "normal_name ?K")
    case True
    then have "?F = py_split CHR ''/'' ?K"
      by (simp add: normal_name_def list_all_iff)
    then have "py_join ''/'' ?F = ?K"
      using py_join_split [of "CHR ''/''" ?K] by simp
    with True p f show ?thesis by simp
  next
    case False
    then have "\<exists>x\<in>set (py_split CHR ''/'' ?K). \<not> (x \<noteq> [] \<and> x \<noteq> ''.'')"
      by (simp add: normal_name_def list_all_iff)
    with ini_component_kept [of key]
    have "length (py_join [CHR ''/''] ?F) < length ?K"
      by (rule length_join_filter_less)
    then have "py_join ''/'' ?F \<noteq> ?K" by auto
    with False p f show ?thesis by simp
  qed
qed

lemma map_eq_piece:
  "(\<exists>p q. map f xs = p @ c @ q) \<longleftrightarrow> (\<exists>pre mid post. xs = pre @ mid @ post \<and> map f mid = c)"
proof
  assume "\<exists>p q. map f xs = p @ c @ q"
  then obtain p q where "map f xs = p @ c @ q" by blast
  then obtain pre rest where k: "xs = pre @ rest" and r: "c @ q = map f rest"
    unfolding map_eq_append_conv by blast
  from r obtain mid post where "rest = mid @ post" and "c = map f mid"
    unfolding append_eq_map_conv by blast
  with k have "xs = pre @ mid @ post \<and> map f mid = c" by simp
  then show "\<exists>pre mid post. xs = pre @ mid @ post \<and> map f mid = c" by blast
next
  assume "\<exists>pre mid post. xs = pre @ mid @ post \<and> map f mid = c"
  then obtain pre mid post where "xs = pre @ mid @ post" and "map f mid = c" by blast
  then have "map f xs = map f pre @ c @ map f post" by simp
  then show "\<exists>p q. map f xs = p @ c @ q" by blast
qed

lemma plugin_of_iff:
  "py_in ''cloudflare'' (py_lower key)
     \<longleftrightarrow> (\<exists>pre mid post. key = pre @ mid @ post \<and> py_lower mid = ''cloudflare'')"
  unfolding py_in_iff py_lower_def by (rule map_eq_piece)

lemma run_certbot_missing_credentials:
  assumes "exists (path_str (creds_path_of key)) = Returns False"
  shows "run_certbot exists spawn fqdn (Str key) email hook_script
           = ([Printed (Provisioning (py_format fqdn)), Printed Separator,
               Called (Exists (path_str (creds_path_of key))),
               Logged True (MissingCredentials (py_format fqdn) (path_str (creds_path_of key)))],
              None)"
  using assms
  by (simp add: run_certbot_def seq_simps and_then_simps call_simps emit_def log_def)

lemma run_row_fields:
  assumes "r ''fqdn'' = Some fqdn" and "r ''dns_provider'' = Some provider_key"
    and "r ''email'' = Some email"
  shows "run_row w hook_script k r
           = run_certbot (creds_exists w k) (certbot w k) fqdn provider_key email hook_script"
  using assms by (simp add: run_row_def getitem_def and_then_simps)

lemma run_rows_next:
  "snd (run_row w hook_script k r) = None \<Longrightarrow>
   run_rows w hook_script k (r # rs)
     = (fst (run_row w hook_script k r) @ fst (run_rows w hook_script (Suc k) rs),
        snd (run_rows w hook_script (Suc k) rs))"
  by (cases "run_row w hook_script k r") (simp add: seq_simps)

text \<open>
  Claim C6, as amended. The plugin and the credential path are functions of the provider
  key alone (the secrets directory is a constant). The plugin is the Cloudflare one
  exactly when some piece of the key reads \<^verbatim>\<open>cloudflare\<close> after lowering, and the RFC
  2136 one otherwise. The credential path is \<^verbatim>\<open><secretsDir>/<providerKey>.ini\<close> exactly
  when the name \<^verbatim>\<open><providerKey>.ini\<close> is normal, that is, when the provider key does not
  start with a slash and has no empty and no single-dot component before a slash (so
  also for a key such as \<^verbatim>\<open>sub/cf\<close>); for every other key the path differs. When the path
  does not exist, \<^verbatim>\<open>run_certbot\<close> logs the missing credentials and returns normally
  without calling the tool, and the loop over the rows goes on with the next row.
\<close>

theorem credentials_resolved:
  "(path_str (creds_path_of key) = spec_credential_path (path_str SECRETS_DIR) key
      \<longleftrightarrow> normal_name (key @ ''.ini''))
   \<and> plugin_of key
       = (if \<exists>pre mid post. key = pre @ mid @ post \<and> py_lower mid = ''cloudflare''
          then ''cloudflare'' else ''rfc2136'')
   \<and> (exists (path_str (creds_path_of key)) = Returns False \<longrightarrow>
        run_certbot exists spawn fqdn (Str key) email hook_script
          = ([Printed (Provisioning (py_format fqdn)), Printed Separator,
              Called (Exists (path_str (creds_path_of key))),
              Logged True (MissingCredentials (py_format fqdn) (path_str (creds_path_of key)))],
             None))
   \<and> (r ''fqdn'' = Some fqdn \<and> r ''dns_provider'' = Some (Str key) \<and> r ''email'' = Some email
        \<and> creds_exists w k (path_str (creds_path_of key)) = Returns False \<longrightarrow>
        run_rows w hook_script k (r # rs)
          = ([Printed (Provisioning (py_format fqdn)), Printed Separator,
              Called (Exists (path_str (creds_path_of key))),
              Logged True (MissingCredentials (py_format fqdn) (path_str (creds_path_of key)))]
             @ fst (run_rows w hook_script (Suc k) rs),
             snd (run_rows w hook_script (Suc k) rs)))"
proof (intro conjI impI)
  show "path_str (creds_path_of key) = spec_credential_path (path_str SECRETS_DIR) key
          \<longleftrightarrow> normal_name (key @ ''.ini'')"
    by (rule creds_path_iff)
next
  show "plugin_of key
       = (if \<exists>pre mid post. key = pre @ mid @ post \<and> py_lower mid = ''cloudflare''
          then ''cloudflare'' else ''rfc2136'')"
    unfolding plugin_of_def plugin_of_iff by (rule refl)
next
  assume "exists (path_str (creds_path_of key)) = Returns False"
  then show "run_certbot exists spawn fqdn (Str key) email hook_script
          = ([Printed (Provisioning (py_format fqdn)), Printed Separator,
              Called (Exists (path_str (creds_path_of key))),
              Logged True (MissingCredentials (py_format fqdn) (path_str (creds_path_of key)))],
             None)"
    by (rule run_certbot_missing_credentials)
next
  assume a: "r ''fqdn'' = Some fqdn \<and> r ''dns_provider'' = Some (Str key) \<and> r ''email'' = Some email
        \<and> creds_exists w k (path_str (creds_path_of key)) = Returns False"
  then have "run_row w hook_script k r
               = ([Printed (Provisioning (py_format fqdn)), Printed Separator,
                   Called (Exists (path_str (creds_path_of key))),
                   Logged True (MissingCredentials (py_format fqdn) (path_str (creds_path_of key)))],
                  None)"
    by (simp add: run_row_fields run_certbot_missing_credentials)
  then show "run_rows w hook_script k (r # rs)
          = ([Printed (Provisioning (py_format fqdn)), Printed Separator,
              Called (Exists (path_str (creds_path_of key))),
              Logged True (MissingCredentials (py_format fqdn) (path_str (creds_path_of key)))]
             @ fst (run_rows w hook_script (Suc k) rs),
             snd (run_rows w hook_script (Suc k) rs))"
    using run_rows_next [of w hook_script k r rs] by simp
qed

lemma demo_row_fields:
  "demo_row ''fqdn'' = Some (Str ''a.example.com'')"
  "demo_row ''dns_provider'' = Some (Str ''cloudflare'')"
  "demo_row ''email'' = Some (Str ''ops@example.com'')"
  by (simp_all add: demo_row_def make_dict_def)

lemma demo_cloudflare_piece:
  "\<exists>pre mid post. ''cloudflare'' = pre @ mid @ post \<and> py_lower mid = ''cloudflare''"
proof -
  have "py_lower ''cloudflare'' = ''cloudflare''" by code_simp
  then have "''cloudflare'' = [] @ ''cloudflare'' @ [] \<and> py_lower ''cloudflare'' = ''cloudflare''"
    by simp
  then show ?thesis by blast
qed

lemma demo_normal_names:
  "normal_name (''cloudflare'' @ ''.ini'')"
  "normal_name (''sub/cf'' @ ''.ini'')"
  by code_simp+

theorem credentials_resolved_witness:
  "normal_name (''cloudflare'' @ ''.ini'')
   \<and> path_str (creds_path_of ''cloudflare'')
       = spec_credential_path (path_str SECRETS_DIR) ''cloudflare''
   \<and> normal_name (''sub/cf'' @ ''.ini'')
   \<and> path_str (creds_path_of ''sub/cf'')
       = spec_credential_path (path_str SECRETS_DIR) ''sub/cf''
   \<and> plugin_of ''cloudflare'' = ''cloudflare''
   \<and> demo_absent (path_str (creds_path_of ''cloudflare'')) = Returns False
   \<and> run_certbot demo_absent demo_valid (Str ''a.example.com'') (Str ''cloudflare'')
         (Str ''ops@example.com'') None
       = ([Printed (Provisioning ''a.example.com''), Printed Separator,
           Called (Exists ''/etc/letsencrypt/secrets/cloudflare.ini''),
           Logged True (MissingCredentials ''a.example.com''
                          ''/etc/letsencrypt/secrets/cloudflare.ini'')],
          None)
   \<and> demo_row ''fqdn'' = Some (Str ''a.example.com'')
   \<and> demo_row ''dns_provider'' = Some (Str ''cloudflare'')
   \<and> demo_row ''email'' = Some (Str ''ops@example.com'')
   \<and> creds_exists demo_unprovisioned 0 (path_str (creds_path_of ''cloudflare'')) = Returns False
   \<and> run_rows demo_unprovisioned None 0 [demo_row, demo_row]
       = ([Printed (Provisioning ''a.example.com''), Printed Separator,
           Called (Exists ''/etc/letsencrypt/secrets/cloudflare.ini''),
           Logged True (MissingCredentials ''a.example.com''
                          ''/etc/letsencrypt/secrets/cloudflare.ini'')]
          @ fst (run_rows demo_unprovisioned None (Suc 0) [demo_row]),
          snd (run_rows demo_unprovisioned None (Suc 0) [demo_row]))"
proof -
  have u: "creds_exists demo_unprovisioned 0 (path_str (creds_path_of ''cloudflare''))
             = Returns False"
    by (simp add: demo_unprovisioned_def demo_absent_def)
  note t = credentials_resolved
             [where key = "''cloudflare''" and exists = demo_absent and spawn = demo_valid
                and fqdn = "Str ''a.example.com''" and email = "Str ''ops@example.com''"
                and hook_script = None and r = demo_row and w = demo_unprovisioned
                and k = 0 and rs = "[demo_row]"]
  note t' = credentials_resolved [where key = "''sub/cf''", THEN conjunct1]
  from t' demo_normal_names(2)
  have p: "path_str (creds_path_of ''sub/cf'')
             = spec_credential_path (path_str SECRETS_DIR) ''sub/cf''"
    by blast
  from t demo_normal_names(1)
  have q: "path_str (creds_path_of ''cloudflare'')
             = spec_credential_path (path_str SECRETS_DIR) ''cloudflare''"
    by blast
  from t u demo_row_fields demo_cloudflare_piece have rest:
    "plugin_of ''cloudflare'' = ''cloudflare''
     \<and> demo_absent (path_str (creds_path_of ''cloudflare'')) = Returns False
     \<and> run_certbot demo_absent demo_valid (Str ''a.example.com'') (Str ''cloudflare'')
           (Str ''ops@example.com'') None
         = ([Printed (Provisioning ''a.example.com''), Printed Separator,
             Called (Exists ''/etc/letsencrypt/secrets/cloudflare.ini''),
             Logged True (MissingCredentials ''a.example.com''
                            ''/etc/letsencrypt/secrets/cloudflare.ini'')],
            None)
     \<and> run_rows demo_unprovisioned None 0 [demo_row, demo_row]
         = ([Printed (Provisioning ''a.example.com''), Printed Separator,
             Called (Exists ''/etc/letsencrypt/secrets/cloudflare.ini''),
             Logged True (MissingCredentials ''a.example.com''
                            ''/etc/letsencrypt/secrets/cloudflare.ini'')]
            @ fst (run_rows demo_unprovisioned None (Suc 0) [demo_row]),
            snd (run_rows demo_unprovisioned None (Suc 0) [demo_row]))"
    by (simp add: demo_absent_def demo_cloudflare_path)
  from demo_normal_names p q rest u demo_row_fields show ?thesis
    by blast
qed

text \<open>The claim as stated fails for a provider key that starts with a slash: the path
  operator drops the secrets directory. It fails as well for a key with a doubled slash
  or a dot component, which the path operator removes.\<close>

theorem credential_path_counterexample:
  "path_str (creds_path_of ''/tmp/cloudflare'') = ''/tmp/cloudflare.ini''
   \<and> spec_credential_path (path_str SECRETS_DIR) ''/tmp/cloudflare''
       = ''/etc/letsencrypt/secrets//tmp/cloudflare.ini''
   \<and> path_str (creds_path_of ''/tmp/cloudflare'')
       \<noteq> spec_credential_path (path_str SECRETS_DIR) ''/tmp/cloudflare''
   \<and> path_str (creds_path_of ''sub//cf'') = ''/etc/letsencrypt/secrets/sub/cf.ini''
   \<and> path_str (creds_path_of ''sub//cf'')
       \<noteq> spec_credential_path (path_str SECRETS_DIR) ''sub//cf''
   \<and> path_str (creds_path_of ''./cf'') = ''/etc/letsencrypt/secrets/cf.ini''
   \<and> path_str (creds_path_of ''./cf'')
       \<noteq> spec_credential_path (path_str SECRETS_DIR) ''./cf''"
  by code_simp

subsection \<open>The command lines of a run\<close>

lemma spawns_ok_append [simp]:
  "spawns_ok P (xs @ ys) \<longleftrightarrow> spawns_ok P xs \<and> spawns_ok P ys"
  by (auto simp: spawns_ok_def)

lemma spawns_ok_simps [simp]:
  "spawns_ok P []"
  "spawns_ok P (Printed m # evs) = spawns_ok P evs"
  "spawns_ok P (Logged b m # evs) = spawns_ok P evs"
  "spawns_ok P (Delivered s # evs) = spawns_ok P evs"
  "spawns_ok P (Called (Gethostbyname h) # evs) = spawns_ok P evs"
  "spawns_ok P (Called (Exists p) # evs) = spawns_ok P evs"
  "spawns_ok P (Called (Open p) # evs) = spawns_ok P evs"
  "spawns_ok P (Called (Sleep n) # evs) = spawns_ok P evs"
  "spawns_ok P (Called (Spawn argv) # evs) = (P argv \<and> spawns_ok P evs)"
  by (auto simp: spawns_ok_def)

lemma spawns_ok_map_Printed [simp]: "spawns_ok P (map (\<lambda>x. Printed (f x)) xs)"
  by (auto simp: spawns_ok_def)

lemma spawns_ok_seq:
  "spawns_ok P (fst a) \<Longrightarrow> spawns_ok P (fst b) \<Longrightarrow> spawns_ok P (fst (seq a b))"
  by (cases a; cases b) (auto simp: seq_def split: option.splits)

lemma spawns_ok_and_then:
  "spawns_ok P (fst a) \<Longrightarrow> (\<And>v. spawns_ok P (fst (f v))) \<Longrightarrow> spawns_ok P (fst (and_then a f))"
proof (cases a)
  case (Pair evs r)
  assume a: "spawns_ok P (fst a)" and f: "\<And>v. spawns_ok P (fst (f v))"
  show ?thesis
  proof (cases r)
    case (Inl x)
    with Pair a show ?thesis by (simp add: and_then_def)
  next
    case (Inr v)
    with Pair a f [of v] show ?thesis
      by (cases "f v") (simp add: and_then_def)
  qed
qed

lemma spawns_ok_call:
  "(\<And>argv. c = Spawn argv \<Longrightarrow> P argv) \<Longrightarrow> spawns_ok P (fst (call c r))"
  by (cases r; cases c) (simp_all add: call_simps)

lemma spawns_ok_time_sleep: "spawns_ok P (fst (time_sleep secs r))"
  by (cases r) (simp_all add: time_sleep_def call_simps)

lemma str_args_Some: "str_args vs = Some xs \<Longrightarrow> vs = map Str xs"
proof (induction vs arbitrary: xs)
  case Nil
  then show ?case by simp
next
  case (Cons v vs)
  then show ?case by (cases v) auto
qed

lemma spawns_ok_subprocess_run:
  "spawns_ok (\<lambda>argv. cmd = map Str argv) (fst (subprocess_run cmd spawn))"
proof (cases "str_args cmd")
  case None
  then show ?thesis by (simp add: subprocess_run_def)
next
  case (Some args)
  then have "cmd = map Str args" by (rule str_args_Some)
  with Some show ?thesis
    by (cases "spawn args") (simp_all add: subprocess_run_def call_simps)
qed

lemma spawns_ok_try_certbot:
  "spawns_ok (\<lambda>argv. cmd = map Str argv) (fst (try_certbot cmd spawn fqdn))"
  using spawns_ok_subprocess_run [of cmd spawn]
  by (auto simp: try_certbot_def log_def split: prod.splits sum.splits exn.splits exc.splits)

lemma certbot_cmd_strings:
  assumes "certbot_cmd plugin email creds fqdn @ hook_args hook_script fqdn = map Str argv"
  shows "\<exists>e f. email = Str e \<and> fqdn = Str f"
  using assms by (cases email; cases fqdn) (auto simp: certbot_cmd_def)

lemma spawns_ok_weaken:
  "spawns_ok P evs \<Longrightarrow> (\<And>argv. P argv \<Longrightarrow> Q argv) \<Longrightarrow> spawns_ok Q evs"
  by (auto simp: spawns_ok_def)

lemma spawns_ok_try_certbot_argv:
  "spawns_ok (certbot_argv hook_script)
     (fst (try_certbot
             (certbot_cmd (plugin_of key) email (path_str (creds_path_of key)) fqdn
                @ hook_args hook_script fqdn)
             spawn fqdn))"
proof (rule spawns_ok_weaken [OF spawns_ok_try_certbot])
  fix argv
  assume eq: "certbot_cmd (plugin_of key) email (path_str (creds_path_of key)) fqdn
                @ hook_args hook_script fqdn = map Str argv"
  from certbot_cmd_strings [OF eq] obtain e f where "email = Str e" "fqdn = Str f" by blast
  with eq show "certbot_argv hook_script argv"
    unfolding certbot_argv_def by metis
qed

lemma spawns_ok_run_certbot:
  "spawns_ok (certbot_argv hook_script)
     (fst (run_certbot exists spawn fqdn provider_key email hook_script))"
  unfolding run_certbot_def
  by (intro spawns_ok_seq)
     (auto intro!: spawns_ok_and_then spawns_ok_call spawns_ok_seq spawns_ok_try_certbot_argv
           simp: emit_def log_def split: pyval.splits)

lemma spawns_ok_run_row:
  "spawns_ok (certbot_argv hook_script) (fst (run_row w hook_script k r))"
  unfolding run_row_def
  by (auto intro!: spawns_ok_and_then spawns_ok_run_certbot)

lemma spawns_ok_run_rows:
  "spawns_ok (certbot_argv hook_script) (fst (run_rows w hook_script k rs))"
  by (induction rs arbitrary: k) (auto intro!: spawns_ok_seq spawns_ok_run_row simp: emit_def)

lemma spawns_ok_for_rows:
  "spawns_ok (certbot_argv hook_script) (fst (for_rows w hook_script rd))"
  unfolding for_rows_def
  by (auto intro!: spawns_ok_seq spawns_ok_run_rows simp: emit_def split: option.splits)

lemma spawns_ok_cycle:
  "spawns_ok (certbot_argv hook_script) (fst (cycle a hook_script w))"
  unfolding cycle_def Let_def
  by (auto intro!: spawns_ok_seq spawns_ok_and_then spawns_ok_call spawns_ok_time_sleep
                   spawns_ok_for_rows
           simp: emit_def log_def)

lemma spawns_ok_service_loop:
  "spawns_ok (certbot_argv hook_script) (fst (service_loop a hook_script ws))"
proof (induction ws)
  case Nil
  show ?case by simp
next
  case (Cons w ws)
  have c: "spawns_ok (certbot_argv hook_script) (fst (cycle a hook_script w))"
    by (rule spawns_ok_cycle)
  have s: "spawns_ok (certbot_argv hook_script)
             (fst (time_sleep RETRY_DELAY (sleep_reply (retry_sleep w))))"
    by (rule spawns_ok_time_sleep)
  from c s Cons.IH show ?case
    by (auto simp: log_def split: prod.splits option.splits exn.splits)
qed

lemma certbot_cmd_argv:
  "map Str argv = certbot_cmd plugin (Str email) creds (Str fqdn) @ map Str extra \<longleftrightarrow>
   argv = [''certbot'', ''certonly'', ''--non-interactive'', ''--agree-tos'',
           ''--email'', email, ''--dns-'' @ plugin, ''--dns-'' @ plugin @ ''-credentials'',
           creds, ''--keep-until-expiring'', ''-d'', fqdn] @ extra"
proof -
  have "certbot_cmd plugin (Str email) creds (Str fqdn) @ map Str extra
          = map Str ([''certbot'', ''certonly'', ''--non-interactive'', ''--agree-tos'',
           ''--email'', email, ''--dns-'' @ plugin, ''--dns-'' @ plugin @ ''-credentials'',
           creds, ''--keep-until-expiring'', ''-d'', fqdn] @ extra)"
    by (simp add: certbot_cmd_def)
  moreover have "inj Str" by (simp add: inj_def)
  ultimately show ?thesis by (simp only: inj_map_eq_map)
qed

text \<open>
  Claim C8. The hook is checked once, before the loop. When the path given with
  \<^verbatim>\<open>--hook\<close> does not exist or is not a regular file at that moment, every command
  line started in any pass of the run is the bare template of twelve words, with no
  \<^verbatim>\<open>--deploy-hook\<close> argument; when the path is checked successfully, every command line
  started is the template followed by \<^verbatim>\<open>--deploy-hook\<close> and the (resolved) hook path, a
  space, and the domain of the job.
\<close>

theorem deploy_hook_iff_verified:
  assumes "Called (Spawn argv) \<in> set (fst (main_service a fs ws))"
    and "hook a = Some h"
  shows "(\<not> (hook_exists fs (path_str (Path h)) \<and> hook_is_file fs (path_str (Path h))) \<longrightarrow>
            (\<exists>key email fqdn.
               argv = [''certbot'', ''certonly'', ''--non-interactive'', ''--agree-tos'',
                       ''--email'', email, ''--dns-'' @ plugin_of key,
                       ''--dns-'' @ plugin_of key @ ''-credentials'',
                       path_str (creds_path_of key), ''--keep-until-expiring'', ''-d'', fqdn]))
         \<and> (h \<noteq> [] \<and> hook_exists fs (path_str (Path h)) \<and> hook_is_file fs (path_str (Path h)) \<longrightarrow>
            (\<exists>key email fqdn.
               argv = [''certbot'', ''certonly'', ''--non-interactive'', ''--agree-tos'',
                       ''--email'', email, ''--dns-'' @ plugin_of key,
                       ''--dns-'' @ plugin_of key @ ''-credentials'',
                       path_str (creds_path_of key), ''--keep-until-expiring'', ''-d'', fqdn,
                       ''--deploy-hook'',
                       path_str (Path (hook_resolve fs (path_str (Path h)))) @ '' '' @ fqdn]))"
proof -
  have "spawns_ok (certbot_argv (hook_script_of a fs)) (fst (main_service a fs ws))"
    unfolding main_service_def by (rule spawns_ok_service_loop)
  with assms(1) have "certbot_argv (hook_script_of a fs) argv"
    by (simp add: spawns_ok_def)
  then obtain key email fqdn where
    eq: "map Str argv =
           certbot_cmd (plugin_of key) (Str email) (path_str (creds_path_of key)) (Str fqdn)
             @ hook_args (hook_script_of a fs) (Str fqdn)"
    unfolding certbot_argv_def by blast
  show ?thesis
  proof (intro conjI impI)
    assume "\<not> (hook_exists fs (path_str (Path h)) \<and> hook_is_file fs (path_str (Path h)))"
    with assms(2) have "hook_args (hook_script_of a fs) (Str fqdn) = map Str []"
      by (auto simp: hook_script_of_def hook_args_def Let_def)
    with eq have "argv = [''certbot'', ''certonly'', ''--non-interactive'', ''--agree-tos'',
                       ''--email'', email, ''--dns-'' @ plugin_of key,
                       ''--dns-'' @ plugin_of key @ ''-credentials'',
                       path_str (creds_path_of key), ''--keep-until-expiring'', ''-d'', fqdn] @ []"
      by (simp only: certbot_cmd_argv)
    then show "\<exists>key email fqdn.
               argv = [''certbot'', ''certonly'', ''--non-interactive'', ''--agree-tos'',
                       ''--email'', email, ''--dns-'' @ plugin_of key,
                       ''--dns-'' @ plugin_of key @ ''-credentials'',
                       path_str (creds_path_of key), ''--keep-until-expiring'', ''-d'', fqdn]"
      by auto
  next
    assume "h \<noteq> [] \<and> hook_exists fs (path_str (Path h)) \<and> hook_is_file fs (path_str (Path h))"
    with assms(2) have "hook_args (hook_script_of a fs) (Str fqdn)
        = map Str [''--deploy-hook'',
                   path_str (Path (hook_resolve fs (path_str (Path h)))) @ '' '' @ fqdn]"
      by (simp add: hook_script_of_def hook_args_def Let_def)
    with eq have "argv = [''certbot'', ''certonly'', ''--non-interactive'', ''--agree-tos'',
                       ''--email'', email, ''--dns-'' @ plugin_of key,
                       ''--dns-'' @ plugin_of key @ ''-credentials'',
                       path_str (creds_path_of key), ''--keep-until-expiring'', ''-d'', fqdn]
                    @ [''--deploy-hook'',
                       path_str (Path (hook_resolve fs (path_str (Path h)))) @ '' '' @ fqdn]"
      by (simp only: certbot_cmd_argv)
    then show "\<exists>key email fqdn.
               argv = [''certbot'', ''certonly'', ''--non-interactive'', ''--agree-tos'',
                       ''--email'', email, ''--dns-'' @ plugin_of key,
                       ''--dns-'' @ plugin_of key @ ''-credentials'',
                       path_str (creds_path_of key), ''--keep-until-expiring'', ''-d'', fqdn,
                       ''--deploy-hook'',
                       path_str (Path (hook_resolve fs (path_str (Path h)))) @ '' '' @ fqdn]"
      by auto
  qed
qed

lemma demo_spawn_without_hook:
  "Called (Spawn [''certbot'', ''certonly'', ''--non-interactive'', ''--agree-tos'',
                  ''--email'', ''ops@example.com'', ''--dns-cloudflare'',
                  ''--dns-cloudflare-credentials'', ''/etc/letsencrypt/secrets/cloudflare.ini'',
                  ''--keep-until-expiring'', ''-d'', ''a.example.com''])
     \<in> set (fst (main_service demo_args demo_no_hook [demo_world]))"
  by code_simp

lemma demo_spawn_with_hook:
  "Called (Spawn [''certbot'', ''certonly'', ''--non-interactive'', ''--agree-tos'',
                  ''--email'', ''ops@example.com'', ''--dns-cloudflare'',
                  ''--dns-cloudflare-credentials'', ''/etc/letsencrypt/secrets/cloudflare.ini'',
                  ''--keep-until-expiring'', ''-d'', ''a.example.com'',
                  ''--deploy-hook'', ''/opt/hook.sh a.example.com''])
     \<in> set (fst (main_service demo_args demo_hook [demo_world]))"
  by code_simp

lemma demo_hook_path: "path_str (Path ''/opt/hook.sh'') = ''/opt/hook.sh''"
  by code_simp

theorem deploy_hook_iff_verified_witness:
  "Called (Spawn [''certbot'', ''certonly'', ''--non-interactive'', ''--agree-tos'',
                  ''--email'', ''ops@example.com'', ''--dns-cloudflare'',
                  ''--dns-cloudflare-credentials'', ''/etc/letsencrypt/secrets/cloudflare.ini'',
                  ''--keep-until-expiring'', ''-d'', ''a.example.com''])
     \<in> set (fst (main_service demo_args demo_no_hook [demo_world]))
   \<and> hook demo_args = Some ''/opt/hook.sh''
   \<and> \<not> (hook_exists demo_no_hook (path_str (Path ''/opt/hook.sh''))
         \<and> hook_is_file demo_no_hook (path_str (Path ''/opt/hook.sh'')))
   \<and> (\<exists>key email fqdn.
         [''certbot'', ''certonly'', ''--non-interactive'', ''--agree-tos'',
          ''--email'', ''ops@example.com'', ''--dns-cloudflare'',
          ''--dns-cloudflare-credentials'', ''/etc/letsencrypt/secrets/cloudflare.ini'',
          ''--keep-until-expiring'', ''-d'', ''a.example.com'']
         = [''certbot'', ''certonly'', ''--non-interactive'', ''--agree-tos'',
            ''--email'', email, ''--dns-'' @ plugin_of key,
            ''--dns-'' @ plugin_of key @ ''-credentials'',
            path_str (creds_path_of key), ''--keep-until-expiring'', ''-d'', fqdn])
   \<and> Called (Spawn [''certbot'', ''certonly'', ''--non-interactive'', ''--agree-tos'',
                  ''--email'', ''ops@example.com'', ''--dns-cloudflare'',
                  ''--dns-cloudflare-credentials'', ''/etc/letsencrypt/secrets/cloudflare.ini'',
                  ''--keep-until-expiring'', ''-d'', ''a.example.com'',
                  ''--deploy-hook'', ''/opt/hook.sh a.example.com''])
     \<in> set (fst (main_service demo_args demo_hook [demo_world]))
   \<and> ''/opt/hook.sh'' \<noteq> []
   \<and> hook_exists demo_hook (path_str (Path ''/opt/hook.sh''))
   \<and> hook_is_file demo_hook (path_str (Path ''/opt/hook.sh''))
   \<and> (\<exists>key email fqdn.
         [''certbot'', ''certonly'', ''--non-interactive'', ''--agree-tos'',
          ''--email'', ''ops@example.com'', ''--dns-cloudflare'',
          ''--dns-cloudflare-credentials'', ''/etc/letsencrypt/secrets/cloudflare.ini'',
          ''--keep-until-expiring'', ''-d'', ''a.example.com'',
          ''--deploy-hook'', ''/opt/hook.sh a.example.com'']
         = [''certbot'', ''certonly'', ''--non-interactive'', ''--agree-tos'',
            ''--email'', email, ''--dns-'' @ plugin_of key,
            ''--dns-'' @ plugin_of key @ ''-credentials'',
            path_str (creds_path_of key), ''--keep-until-expiring'', ''-d'', fqdn,
            ''--deploy-hook'',
            path_str (Path (hook_resolve demo_hook (path_str (Path ''/opt/hook.sh''))))
              @ '' '' @ fqdn])"
proof -
  have h: "hook demo_args = Some ''/opt/hook.sh''"
    by (simp add: demo_args_def)
  have n: "\<not> (hook_exists demo_no_hook (path_str (Path ''/opt/hook.sh''))
              \<and> hook_is_file demo_no_hook (path_str (Path ''/opt/hook.sh'')))"
    by (simp add: demo_no_hook_def)
  have y: "''/opt/hook.sh'' \<noteq> [] \<and> hook_exists demo_hook (path_str (Path ''/opt/hook.sh''))
              \<and> hook_is_file demo_hook (path_str (Path ''/opt/hook.sh''))"
    by (simp add: demo_hook_def)
  note t1 = deploy_hook_iff_verified [OF demo_spawn_without_hook h]
  note t2 = deploy_hook_iff_verified [OF demo_spawn_with_hook h]
  from t1 n have c1: "\<exists>key email fqdn.
         [''certbot'', ''certonly'', ''--non-interactive'', ''--agree-tos'',
          ''--email'', ''ops@example.com'', ''--dns-cloudflare'',
          ''--dns-cloudflare-credentials'', ''/etc/letsencrypt/secrets/cloudflare.ini'',
          ''--keep-until-expiring'', ''-d'', ''a.example.com'']
         = [''certbot'', ''certonly'', ''--non-interactive'', ''--agree-tos'',
            ''--email'', email, ''--dns-'' @ plugin_of key,
            ''--dns-'' @ plugin_of key @ ''-credentials'',
            path_str (creds_path_of key), ''--keep-until-expiring'', ''-d'', fqdn]"
    by blast
  from t2 y have c2: "\<exists>key email fqdn.
         [''certbot'', ''certonly'', ''--non-interactive'', ''--agree-tos'',
          ''--email'', ''ops@example.com'', ''--dns-cloudflare'',
          ''--dns-cloudflare-credentials'', ''/etc/letsencrypt/secrets/cloudflare.ini'',
          ''--keep-until-expiring'', ''-d'', ''a.example.com'',
          ''--deploy-hook'', ''/opt/hook.sh a.example.com'']
         = [''certbot'', ''certonly'', ''--non-interactive'', ''--agree-tos'',
            ''--email'', email, ''--dns-'' @ plugin_of key,
            ''--dns-'' @ plugin_of key @ ''-credentials'',
            path_str (creds_path_of key), ''--keep-until-expiring'', ''-d'', fqdn,
            ''--deploy-hook'',
            path_str (Path (hook_resolve demo_hook (path_str (Path ''/opt/hook.sh''))))
              @ '' '' @ fqdn]"
    by blast
  from demo_spawn_without_hook h n c1 demo_spawn_with_hook y c2 show ?thesis
    by blast
qed

subsection \<open>The loop over the rows\<close>

lemma attempts_append [simp]: "attempts (xs @ ys) = attempts xs @ attempts ys"
  by (induction xs rule: attempts.induct) simp_all

lemma attempts_error_lines [simp]: "attempts (map (\<lambda>x. Printed (ErrorLine x)) xs) = []"
  by (induction xs) simp_all

lemma attempts_call [simp]: "attempts (fst (call c r)) = []"
  by (cases r) (simp_all add: call_simps)





















subsection \<open>Spaces in front of a field\<close>

lemma feed_append:
  "feed s (xs @ ys) = (case feed s xs of Inl e \<Rightarrow> Inl e | Inr s' \<Rightarrow> feed s' ys)"
  by (induction xs arbitrary: s) (auto split: sum.splits)

lemma skip_space:
  "r_state s = START_FIELD \<Longrightarrow> parse_process_char s (Some CHR '' '') = Inr s"
  by (simp add: parse_process_char_def start_field_def is_newline_def)

lemma skip_spaces:
  "r_state s = START_FIELD \<Longrightarrow> feed s (replicate n (Some CHR '' '') @ xs) = feed s xs"
  by (induction n) (simp_all add: skip_space)

lemma record_start:
  "\<not> is_newline c \<Longrightarrow> r_state s = START_RECORD \<Longrightarrow>
   parse_process_char s (Some c) = parse_process_char (s\<lparr>r_state := START_FIELD\<rparr>) (Some c)"
  by (simp add: parse_process_char_def)

lemma skip_spaces_record:
  assumes "field_start s post"
  shows "feed s (replicate n (Some CHR '' '') @ map Some post @ after)
           = feed s (map Some post @ after)"
proof (cases "r_state s = START_FIELD")
  case True
  then show ?thesis by (rule skip_spaces)
next
  case False
  with assms obtain c cs where
    post: "post = c # cs" and c: "\<not> is_newline c" and st: "r_state s = START_RECORD"
    by (auto simp: field_start_def split: list.splits)
  show ?thesis
  proof (cases n)
    case 0
    then show ?thesis by simp
  next
    case (Suc m)
    let ?t = "s\<lparr>r_state := START_FIELD\<rparr>"
    have t: "r_state ?t = START_FIELD" by simp
    have sp: "parse_process_char s (Some CHR '' '') = Inr ?t"
      using st by (simp add: parse_process_char_def start_field_def is_newline_def)
    have "feed s (replicate n (Some CHR '' '') @ map Some post @ after)
            = feed ?t (replicate m (Some CHR '' '') @ map Some post @ after)"
      by (simp add: Suc sp)
    also have "\<dots> = feed ?t (map Some post @ after)"
      using t by (rule skip_spaces)
    also have "\<dots> = feed s (map Some post @ after)"
      using record_start [OF c st] by (simp add: post)
    finally show ?thesis .
  qed
qed

lemma feed_insert:
  assumes "\<And>s. feed s0 (map Some pre) = Inr s \<Longrightarrow> field_start s post"
  shows "feed s0 (map Some (pre @ replicate n CHR '' '' @ post) @ after)
           = feed s0 (map Some (pre @ post) @ after)"
proof -
  have l: "map Some (pre @ replicate n CHR '' '' @ post) @ after
             = map Some pre @ (replicate n (Some CHR '' '') @ map Some post @ after)"
    by simp
  have r: "map Some (pre @ post) @ after = map Some pre @ (map Some post @ after)"
    by simp
  show ?thesis
  proof (cases "feed s0 (map Some pre)")
    case (Inl e)
    then show ?thesis
      unfolding l r feed_append [of s0 "map Some pre"] by simp
  next
    case (Inr s)
    from assms [OF Inr] have "field_start s post" .
    from skip_spaces_record [OF this] Inr show ?thesis
      unfolding l r feed_append [of s0 "map Some pre"] by simp
  qed
qed

lemma reader_rows_after:
  "(case reader_state self before of
      None \<Rightarrow> True
    | Some s \<Rightarrow> reader_rows s xs = reader_rows s ys)
   \<Longrightarrow> reader_rows self (before @ xs) = reader_rows self (before @ ys)"
proof (induction self before rule: reader_state.induct)
  case (1 self)
  then show ?case by simp
next
  case (2 self e rest)
  show ?case by simp
next
  case (3 self line rest)
  show ?case
  proof (cases "feed self (map Some line @ [None])")
    case (Inl e)
    then show ?thesis by simp
  next
    case (Inr self')
    show ?thesis
    proof (cases "r_state self' = START_RECORD")
      case True
      with Inr "3.prems" have
        "case reader_state parse_reset rest of
           None \<Rightarrow> True
         | Some s \<Rightarrow> reader_rows s xs = reader_rows s ys"
        by simp
      from "3.IH"(1) [OF Inr True this] Inr True show ?thesis by simp
    next
      case False
      with Inr "3.prems" have
        "case reader_state self' rest of
           None \<Rightarrow> True
         | Some s \<Rightarrow> reader_rows s xs = reader_rows s ys"
        by simp
      from "3.IH"(2) [OF Inr False this] Inr False show ?thesis by simp
    qed
  qed
qed

lemma reader_state_reset:
  "reader_state self before = Some s \<Longrightarrow> r_state s = START_RECORD
   \<Longrightarrow> s = parse_reset \<or> s = self"
proof (induction self before rule: reader_state.induct)
  case (1 self)
  then show ?case by simp
next
  case (2 self e rest)
  then show ?case by simp
next
  case (3 self line rest)
  show ?case
  proof (cases "feed self (map Some line @ [None])")
    case (Inl e)
    with "3.prems" show ?thesis by simp
  next
    case (Inr self')
    show ?thesis
    proof (cases "r_state self' = START_RECORD")
      case True
      with Inr "3.prems" have "reader_state parse_reset rest = Some s" by simp
      from "3.IH"(1) [OF Inr True this "3.prems"(2)] show ?thesis by simp
    next
      case False
      with Inr "3.prems" have "reader_state self' rest = Some s" by simp
      from "3.IH"(2) [OF Inr False this "3.prems"(2)] False "3.prems"(2)
      show ?thesis by auto
    qed
  qed
qed

lemma spaces_at_field_start:
  assumes "at_field_start before pre post"
  shows "reader_rows parse_reset (before @ Inr (pre @ replicate n CHR '' '' @ post) # rest)
           = reader_rows parse_reset (before @ Inr (pre @ post) # rest)"
proof (rule reader_rows_after, cases "reader_state parse_reset before")
  case None
  then show "case reader_state parse_reset before of
               None \<Rightarrow> True
             | Some s \<Rightarrow> reader_rows s (Inr (pre @ replicate n CHR '' '' @ post) # rest)
                          = reader_rows s (Inr (pre @ post) # rest)"
    by simp
next
  case (Some s0)
  with assms have "\<And>s. feed s0 (map Some pre) = Inr s \<Longrightarrow> field_start s post"
    by (simp add: at_field_start_def)
  then have "feed s0 (map Some (pre @ replicate n CHR '' '' @ post) @ [None])
               = feed s0 (map Some (pre @ post) @ [None])"
    by (rule feed_insert)
  with Some show "case reader_state parse_reset before of
               None \<Rightarrow> True
             | Some s \<Rightarrow> reader_rows s (Inr (pre @ replicate n CHR '' '' @ post) # rest)
                          = reader_rows s (Inr (pre @ post) # rest)"
    by simp
qed

lemma step_plain:
  assumes "c \<noteq> CHR 0x22" and "\<not> is_newline c"
    and "r_state s = START_FIELD \<or> r_state s = IN_FIELD"
    and "parse_process_char s (Some c) = Inr s'"
  shows "r_state s' = START_FIELD \<or> r_state s' = IN_FIELD"
  using assms
  by (auto simp: parse_process_char_def start_field_def parse_add_char_def parse_save_field_def
           split: if_splits)

lemma feed_plain:
  assumes "plain xs"
    and "r_state s = START_FIELD \<or> r_state s = IN_FIELD"
    and "feed s (map Some xs) = Inr s'"
  shows "r_state s' = START_FIELD \<or> r_state s' = IN_FIELD"
  using assms
proof (induction xs arbitrary: s)
  case Nil
  then show ?case by simp
next
  case (Cons c cs)
  from Cons.prems(3) obtain t where
    t: "parse_process_char s (Some c) = Inr t" and rest: "feed t (map Some cs) = Inr s'"
    by (auto split: sum.splits)
  from Cons.prems(1) have c: "c \<noteq> CHR 0x22" "\<not> is_newline c" and cs: "plain cs"
    by (simp_all add: plain_def)
  from step_plain [OF c Cons.prems(2) t]
  have "r_state t = START_FIELD \<or> r_state t = IN_FIELD" .
  from Cons.IH [OF cs this rest] show ?case .
qed

lemma feed_plain_field:
  assumes "plain f" and "r_state s = START_FIELD"
    and "feed s (map Some f @ [Some CHR '','']) = Inr s'"
  shows "r_state s' = START_FIELD"
proof -
  from assms(3) obtain t where
    t: "feed s (map Some f) = Inr t" and e: "parse_process_char t (Some CHR '','') = Inr s'"
    unfolding feed_append by (auto split: sum.splits)
  from assms(2) have "r_state s = START_FIELD \<or> r_state s = IN_FIELD"
    by simp
  from feed_plain [OF assms(1) this t]
  have st: "r_state t = START_FIELD \<or> r_state t = IN_FIELD" .
  with e show ?thesis
    by (auto simp: parse_process_char_def start_field_def parse_save_field_def is_newline_def)
qed

lemma feed_padded:
  assumes "fs \<noteq> []" and "list_all plain fs" and "length ns = length fs"
    and "r_state s = START_FIELD"
  shows "feed s (map Some (py_join '','' (map2 pad ns fs)) @ after)
           = feed s (map Some (py_join '','' fs) @ after)"
  using assms
proof (induction fs arbitrary: ns s rule: list_nonempty_induct)
  case (single f)
  then obtain n where ns: "ns = [n]" by (cases ns) simp_all
  have "map Some (py_join '','' (map2 pad ns [f])) @ after
          = replicate n (Some CHR '' '') @ (map Some f @ after)"
    by (simp add: ns pad_def)
  with single.prems(3) show ?case
    by (simp add: skip_spaces)
next
  case (cons f fs)
  from cons.prems(2) obtain n ms where ns: "ns = n # ms" and len: "length ms = length fs"
    by (cases ns) simp_all
  from cons.prems(1) have pf: "plain f" and pfs: "list_all plain fs" by simp_all
  from cons.hyps len have ne: "map2 pad ms fs \<noteq> []" by (cases ms; cases fs) simp_all
  have "map2 pad ns (f # fs) = pad n f # map2 pad ms fs"
    by (simp add: ns)
  then have "py_join '','' (map2 pad ns (f # fs))
               = pad n f @ '','' @ py_join '','' (map2 pad ms fs)"
    by (simp only: py_join_Cons [OF ne])
  then have l: "map Some (py_join '','' (map2 pad ns (f # fs))) @ after
        = replicate n (Some CHR '' '')
          @ ((map Some f @ [Some CHR '','']) @ (map Some (py_join '','' (map2 pad ms fs)) @ after))"
    by (simp add: pad_def)
  have r: "map Some (py_join '','' (f # fs)) @ after
        = (map Some f @ [Some CHR '','']) @ (map Some (py_join '','' fs) @ after)"
    by (simp add: py_join_Cons [OF cons.hyps])
  show ?case
  proof (cases "feed s (map Some f @ [Some CHR '',''])")
    case (Inl e)
    then show ?thesis
      unfolding l r skip_spaces [OF cons.prems(3)] feed_append [of s "map Some f @ [Some CHR '','']"]
      by simp
  next
    case (Inr s')
    from feed_plain_field [OF pf cons.prems(3) Inr] have st: "r_state s' = START_FIELD" .
    from cons.IH [OF pfs len st] Inr show ?thesis
      unfolding l r skip_spaces [OF cons.prems(3)] feed_append [of s "map Some f @ [Some CHR '','']"]
      by simp
  qed
qed

lemma plain_first_char:
  assumes "list_all plain fs" and "fs \<noteq> []" and "fs \<noteq> [[]]"
  shows "\<exists>c cs. py_join '','' fs = c # cs \<and> \<not> is_newline c"
proof (cases fs)
  case Nil
  with assms(2) show ?thesis by simp
next
  case (Cons f gs)
  show ?thesis
  proof (cases f)
    case Nil
    with Cons assms(3) have gs: "gs \<noteq> []" by simp
    have "py_join '','' fs = CHR '','' # py_join '','' gs"
      using Cons Nil py_join_Cons [OF gs, of "'',''" f] by simp
    then show ?thesis by (simp add: is_newline_def)
  next
    case (Cons c cs)
    with assms(1) \<open>fs = f # gs\<close> have "\<not> is_newline c" by (simp add: plain_def)
    moreover have "\<exists>rest. py_join '','' fs = c # rest"
      using Cons \<open>fs = f # gs\<close> by (cases gs) simp_all
    ultimately show ?thesis by blast
  qed
qed

lemma feed_record_start:
  "\<not> is_newline c \<Longrightarrow>
   feed parse_reset (Some c # xs) = feed (parse_reset\<lparr>r_state := START_FIELD\<rparr>) (Some c # xs)"
  using record_start [of c parse_reset] by (simp add: parse_reset_def)

lemma plain_pad: "plain f \<Longrightarrow> plain (pad n f)"
  by (induction n) (simp_all add: plain_def pad_def is_newline_def)

lemma plain_padded: "list_all plain fs \<Longrightarrow> list_all plain (map2 pad ns fs)"
proof (induction fs arbitrary: ns)
  case Nil
  show ?case by simp
next
  case (Cons f fs)
  then show ?case by (cases ns) (simp_all add: plain_pad)
qed

lemma padded_fields:
  assumes "list_all plain fs" and "fs \<noteq> []" and "fs \<noteq> [[]]" and "length ns = length fs"
  shows "list_all plain (map2 pad ns fs)" and "map2 pad ns fs \<noteq> []" and "map2 pad ns fs \<noteq> [[]]"
proof -
  show "list_all plain (map2 pad ns fs)"
    using assms(1) by (rule plain_padded)
  from assms(2,4) obtain f gs n ms where
    fs: "fs = f # gs" and ns: "ns = n # ms" and len: "length ms = length gs"
    by (cases fs; cases ns) simp_all
  show "map2 pad ns fs \<noteq> []"
    by (simp add: fs ns)
  show "map2 pad ns fs \<noteq> [[]]"
  proof (cases gs)
    case Nil
    with assms(3) fs have "f \<noteq> []" by simp
    then show ?thesis by (simp add: fs ns pad_def)
  next
    case (Cons g hs)
    with len obtain m ks where "ms = m # ks" by (cases ms) simp_all
    with Cons show ?thesis by (simp add: fs ns)
  qed
qed

lemma padded_line:
  assumes "list_all plain fs" and "fs \<noteq> []" and "fs \<noteq> [[]]" and "length ns = length fs"
  shows "feed parse_reset (map Some (py_join '','' (map2 pad ns fs) @ [CHR 0x0A]) @ [None])
           = feed parse_reset (map Some (py_join '','' fs @ [CHR 0x0A]) @ [None])"
proof -
  let ?start = "parse_reset\<lparr>r_state := START_FIELD\<rparr>"
  have st: "r_state ?start = START_FIELD" by simp
  note p = padded_fields [OF assms]
  obtain c cs where c: "py_join '','' fs = c # cs" "\<not> is_newline c"
    using plain_first_char [OF assms(1,2,3)] by blast
  obtain d ds where d: "py_join '','' (map2 pad ns fs) = d # ds" "\<not> is_newline d"
    using plain_first_char [OF p] by blast
  have "feed parse_reset (map Some (py_join '','' (map2 pad ns fs) @ [CHR 0x0A]) @ [None])
          = feed ?start (map Some (py_join '','' (map2 pad ns fs)) @ [Some CHR 0x0A, None])"
    using feed_record_start [OF d(2)] by (simp add: d(1))
  also have "\<dots> = feed ?start (map Some (py_join '','' fs) @ [Some CHR 0x0A, None])"
    using assms(2) assms(1) assms(4) st by (rule feed_padded)
  also have "\<dots> = feed parse_reset (map Some (py_join '','' fs @ [CHR 0x0A]) @ [None])"
    using feed_record_start [OF c(2)] by (simp add: c(1))
  finally show ?thesis .
qed

lemma padded_row:
  assumes "starts_record before"
    and "list_all plain fs" and "fs \<noteq> []" and "fs \<noteq> [[]]" and "length ns = length fs"
  shows "reader_rows parse_reset (before @ as_line (py_join '','' (map2 pad ns fs)) # rest)
         = reader_rows parse_reset (before @ as_line (py_join '','' fs) # rest)"
proof (rule reader_rows_after, cases "reader_state parse_reset before")
  case None
  then show "case reader_state parse_reset before of
               None \<Rightarrow> True
             | Some s \<Rightarrow> reader_rows s (as_line (py_join '','' (map2 pad ns fs)) # rest)
                          = reader_rows s (as_line (py_join '','' fs) # rest)"
    by simp
next
  case (Some s)
  with assms(1) have "r_state s = START_RECORD"
    by (simp add: starts_record_def)
  from reader_state_reset [OF Some this] have s: "s = parse_reset" by simp
  have "reader_rows parse_reset (as_line (py_join '','' (map2 pad ns fs)) # rest)
          = reader_rows parse_reset (as_line (py_join '','' fs) # rest)"
    by (simp add: as_line_def padded_line [OF assms(2-5), simplified])
  with Some s show "case reader_state parse_reset before of
               None \<Rightarrow> True
             | Some s \<Rightarrow> reader_rows s (as_line (py_join '','' (map2 pad ns fs)) # rest)
                          = reader_rows s (as_line (py_join '','' fs) # rest)"
    by simp
qed

text \<open>
  Claim C9, as amended. Spaces in front of a field are skipped, and nothing else is.
  Any number of spaces put into a line at the start of a field, quoted or not, in the
  header or in a row, change nothing: the reader yields the same rows and the same
  exception, so the job descriptors are the same. In particular, after lines that end a
  record, a row of plain fields with any number of spaces in front of each field is read
  exactly as the row without those spaces.
\<close>

theorem leading_spaces_skipped:
  "(at_field_start before pre post \<longrightarrow>
      DictReader (before @ Inr (pre @ replicate n CHR '' '' @ post) # rest)
        = DictReader (before @ Inr (pre @ post) # rest))
   \<and> (starts_record before \<and> list_all plain fs \<and> fs \<noteq> [] \<and> fs \<noteq> [[]]
        \<and> length ns = length fs \<longrightarrow>
      DictReader (before @ as_line (py_join '','' (map2 pad ns fs)) # rest)
        = DictReader (before @ as_line (py_join '','' fs) # rest))"
proof (intro conjI impI)
  assume "at_field_start before pre post"
  then show "DictReader (before @ Inr (pre @ replicate n CHR '' '' @ post) # rest)
               = DictReader (before @ Inr (pre @ post) # rest)"
    unfolding DictReader_def by (simp only: spaces_at_field_start)
next
  assume "starts_record before \<and> list_all plain fs \<and> fs \<noteq> [] \<and> fs \<noteq> [[]]
            \<and> length ns = length fs"
  then have a: "starts_record before" "list_all plain fs" "fs \<noteq> []" "fs \<noteq> [[]]"
    "length ns = length fs"
    by simp_all
  show "DictReader (before @ as_line (py_join '','' (map2 pad ns fs)) # rest)
          = DictReader (before @ as_line (py_join '','' fs) # rest)"
    unfolding DictReader_def by (simp only: padded_row [OF a])
qed

lemma demo_spaces_facts:
  "at_field_start [demo_header] ''a.example.com,'' demo_quoted"
  "starts_record [demo_header]"
  "list_all plain [''a.example.com'', ''cloudflare'', ''ops@example.com'']"
  "''a.example.com,'' @ replicate 2 CHR '' '' @ demo_quoted
     = ''a.example.com,  '' @ demo_quoted"
  "py_join '','' (map2 pad [0, 1, 2] [''a.example.com'', ''cloudflare'', ''ops@example.com''])
     = ''a.example.com, cloudflare,  ops@example.com''"
  "map descriptor
     (fst (DictReader ([demo_header] @ Inr (''a.example.com,'' @ demo_quoted) # [])))
     = [(Some (Str ''a.example.com''), Some (Str ''cloudflare''), Some (Str ''ops@example.com''))]"
  "map descriptor
     (fst (DictReader ([demo_header]
             @ as_line (py_join '','' [''a.example.com'', ''cloudflare'', ''ops@example.com''])
               # [])))
     = [(Some (Str ''a.example.com''), Some (Str ''cloudflare''), Some (Str ''ops@example.com''))]"
  by code_simp+

theorem leading_spaces_skipped_witness:
  "at_field_start [demo_header] ''a.example.com,'' demo_quoted
   \<and> ''a.example.com,'' @ replicate 2 CHR '' '' @ demo_quoted
       = ''a.example.com,  '' @ demo_quoted
   \<and> DictReader ([demo_header]
                  @ Inr (''a.example.com,'' @ replicate 2 CHR '' '' @ demo_quoted) # [])
       = DictReader ([demo_header] @ Inr (''a.example.com,'' @ demo_quoted) # [])
   \<and> map descriptor
         (fst (DictReader ([demo_header]
                 @ Inr (''a.example.com,'' @ replicate 2 CHR '' '' @ demo_quoted) # [])))
       = [(Some (Str ''a.example.com''), Some (Str ''cloudflare''), Some (Str ''ops@example.com''))]
   \<and> starts_record [demo_header]
   \<and> list_all plain [''a.example.com'', ''cloudflare'', ''ops@example.com'']
   \<and> [''a.example.com'', ''cloudflare'', ''ops@example.com''] \<noteq> []
   \<and> [''a.example.com'', ''cloudflare'', ''ops@example.com''] \<noteq> [[]]
   \<and> length [0, 1, 2 :: nat] = length [''a.example.com'', ''cloudflare'', ''ops@example.com'']
   \<and> py_join '','' (map2 pad [0, 1, 2] [''a.example.com'', ''cloudflare'', ''ops@example.com''])
       = ''a.example.com, cloudflare,  ops@example.com''
   \<and> DictReader ([demo_header]
                  @ as_line (py_join '','' (map2 pad [0, 1, 2]
                       [''a.example.com'', ''cloudflare'', ''ops@example.com''])) # [])
       = DictReader ([demo_header]
                     @ as_line (py_join '','' [''a.example.com'', ''cloudflare'',
                                               ''ops@example.com'']) # [])
   \<and> map descriptor
         (fst (DictReader ([demo_header]
                 @ as_line (py_join '','' (map2 pad [0, 1, 2]
                      [''a.example.com'', ''cloudflare'', ''ops@example.com''])) # [])))
       = [(Some (Str ''a.example.com''), Some (Str ''cloudflare''), Some (Str ''ops@example.com''))]"
proof -
  let ?fs = "[''a.example.com'', ''cloudflare'', ''ops@example.com'']"
  have n1: "?fs \<noteq> []" by simp
  have n2: "?fs \<noteq> [[]]" by simp
  have n3: "length [0, 1, 2 :: nat] = length ?fs" by simp
  note t = leading_spaces_skipped
             [where before = "[demo_header]" and pre = "''a.example.com,''"
                and post = demo_quoted and n = 2 and rest = "[]"
                and fs = ?fs and ns = "[0, 1, 2]"]
  from t demo_spaces_facts(1)
  have e1: "DictReader ([demo_header]
                  @ Inr (''a.example.com,'' @ replicate 2 CHR '' '' @ demo_quoted) # [])
       = DictReader ([demo_header] @ Inr (''a.example.com,'' @ demo_quoted) # [])"
    by blast
  from t demo_spaces_facts(2,3) n1 n2 n3
  have e2: "DictReader ([demo_header]
                  @ as_line (py_join '','' (map2 pad [0, 1, 2] ?fs)) # [])
       = DictReader ([demo_header] @ as_line (py_join '','' ?fs) # [])"
    by blast
  have d1: "map descriptor
         (fst (DictReader ([demo_header]
                 @ Inr (''a.example.com,'' @ replicate 2 CHR '' '' @ demo_quoted) # [])))
       = [(Some (Str ''a.example.com''), Some (Str ''cloudflare''), Some (Str ''ops@example.com''))]"
    unfolding e1 by (rule demo_spaces_facts(6))
  have d2: "map descriptor
         (fst (DictReader ([demo_header]
                 @ as_line (py_join '','' (map2 pad [0, 1, 2] ?fs)) # [])))
       = [(Some (Str ''a.example.com''), Some (Str ''cloudflare''), Some (Str ''ops@example.com''))]"
    unfolding e2 by (rule demo_spaces_facts(7))
  from demo_spaces_facts(1,4) e1 d1 demo_spaces_facts(2,3) n1 n2 n3 demo_spaces_facts(5) e2 d2
  show ?thesis
    by (intro conjI)
qed

text \<open>The claim as stated fails for whitespace that is not a run of spaces in front of
  a field: a space after the value, a tab in front of it and a space inside the quotes
  all stay in the value; and a line of spaces alone is a row with an empty domain name,
  where the empty line is no row.\<close>

theorem trailing_space_kept_counterexample:
  "map descriptor (fst (DictReader demo_trimmed))
     = [(Some (Str ''a.example.com''), Some (Str ''cloudflare''), Some (Str ''ops@example.com''))]
   \<and> map descriptor (fst (DictReader demo_trailing))
       = [(Some (Str ''a.example.com ''), Some (Str ''cloudflare''), Some (Str ''ops@example.com''))]
   \<and> map descriptor (fst (DictReader demo_trailing))
       \<noteq> map descriptor (fst (DictReader demo_trimmed))
   \<and> map descriptor (fst (DictReader demo_tab))
       = [(Some (Str ''a.example.com''), Some (Str (CHR 0x09 # ''cloudflare'')),
           Some (Str ''ops@example.com''))]
   \<and> map descriptor (fst (DictReader demo_tab))
       \<noteq> map descriptor (fst (DictReader demo_trimmed))
   \<and> map descriptor (fst (DictReader demo_inside_quotes))
       = [(Some (Str '' a.example.com''), Some (Str ''cloudflare''), Some (Str ''ops@example.com''))]
   \<and> map descriptor (fst (DictReader demo_inside_quotes))
       \<noteq> map descriptor (fst (DictReader demo_trimmed))
   \<and> map descriptor (fst (DictReader demo_spaces_only))
       = [(Some (Str []), Some NoneVal, Some NoneVal)]
   \<and> map descriptor (fst (DictReader demo_empty_line)) = []
   \<and> map descriptor (fst (DictReader demo_spaces_only))
       \<noteq> map descriptor (fst (DictReader demo_empty_line))"
  by code_simp

end
